theory Spec2Isabelle
  imports Complex_Main "HOL-Library.Log_Nat"
begin

section \<open>Special points of a chart: the arithmetic layer of advPoints.py\<close>

text \<open>
  The module computes on Python floats, which are IEEE 754 binary64 numbers. A float is
  modelled as its exact rational value, or as one of the two infinities or NaN; every
  arithmetic operation computes the exact result and rounds it to the nearest double,
  ties to even, as the hardware does. The sign of a zero is not kept: no result of the
  module depends on it. Python integers are \<open>int\<close>, Python strings are byte strings in
  UTF-8 (the encoding of the source file), tuples are products, and an uncaught exception
  is the left summand of a sum type.
\<close>

subsection \<open>Doubles and rounding\<close>

datatype pyfloat = Fin rat | PInf | NInf | NaN

datatype error = IndexError | KeyError int | ValueError | OverflowError

text \<open>The binary exponent of a positive rational: \<open>2 ^ ilog2 y \<le> y < 2 ^ (ilog2 y + 1)\<close>.\<close>

definition ilog2 :: "rat \<Rightarrow> int" where
  "ilog2 y = (if 1 \<le> y then bitlen \<lfloor>y\<rfloor> - 1 else - bitlen (\<lceil>1 / y\<rceil> - 1))"

text \<open>
  The spacing of the doubles around \<open>y\<close>: 53 significant bits, and never finer than the
  subnormal spacing \<open>2 ^ -1074\<close>.
\<close>

definition qexp :: "rat \<Rightarrow> int" where
  "qexp y = max (ilog2 \<bar>y\<bar> - 52) (- 1074)"

definition quantum :: "rat \<Rightarrow> rat" where
  "quantum y = 2 powi (qexp y)"

text \<open>Rounding to the nearest integer, a tie going to the even one.\<close>

definition rhe :: "rat \<Rightarrow> int" where
  "rhe s =
     (let f = \<lfloor>s\<rfloor>; r = s - of_int f
      in if r < 1 / 2 then f else if 1 / 2 < r then f + 1 else if even f then f else f + 1)"

text \<open>Rounding to the nearest double, with the exponent range unbounded above.\<close>

definition rnd :: "rat \<Rightarrow> rat" where
  "rnd y = (if y = 0 then 0 else of_int (rhe (y / quantum y)) * quantum y)"

text \<open>The double that an exact result becomes: an infinity once the rounded value leaves the range.\<close>

definition fl :: "rat \<Rightarrow> pyfloat" where
  "fl y = (let r = rnd y in if 2 ^ 1024 \<le> r then PInf else if r \<le> - (2 ^ 1024) then NInf else Fin r)"

subsection \<open>Python primitives used by the module\<close>

fun fneg :: "pyfloat \<Rightarrow> pyfloat" where
  "fneg (Fin a) = Fin (- a)"
| "fneg PInf = NInf"
| "fneg NInf = PInf"
| "fneg NaN = NaN"

text \<open>\<open>a + b\<close> and \<open>a - b\<close> on floats.\<close>

fun fadd :: "pyfloat \<Rightarrow> pyfloat \<Rightarrow> pyfloat" where
  "fadd (Fin a) (Fin b) = fl (a + b)"
| "fadd NaN b = NaN"
| "fadd a NaN = NaN"
| "fadd PInf NInf = NaN"
| "fadd NInf PInf = NaN"
| "fadd PInf b = PInf"
| "fadd NInf b = NInf"
| "fadd a PInf = PInf"
| "fadd a NInf = NInf"

definition fsub :: "pyfloat \<Rightarrow> pyfloat \<Rightarrow> pyfloat" where
  "fsub a b = fadd a (fneg b)"

text \<open>
  \<open>a * c\<close> and \<open>a / c\<close> where \<open>c\<close> is a finite float: in the module the right operand of
  every product and quotient is a numeric literal or the table entry times a literal.
  The divisors are the non-zero literals 4, 2, 360/27 and 360/108, so the
  ZeroDivisionError of Python is not reachable and is not a branch here.
\<close>

fun fmul :: "pyfloat \<Rightarrow> rat \<Rightarrow> pyfloat" where
  "fmul (Fin a) c = fl (a * c)"
| "fmul PInf c = (if 0 < c then PInf else if c < 0 then NInf else NaN)"
| "fmul NInf c = (if 0 < c then NInf else if c < 0 then PInf else NaN)"
| "fmul NaN c = NaN"

fun fdiv :: "pyfloat \<Rightarrow> rat \<Rightarrow> pyfloat" where
  "fdiv (Fin a) c = fl (a / c)"
| "fdiv PInf c = (if 0 < c then PInf else NInf)"
| "fdiv NInf c = (if 0 < c then NInf else PInf)"
| "fdiv NaN c = NaN"

text \<open>\<open>a / b\<close> on two integers: the quotient rounded to a double (it is finite here).\<close>

definition int_truediv :: "int \<Rightarrow> int \<Rightarrow> rat" where
  "int_truediv a b = rnd (of_int a / of_int b)"

text \<open>An integer operand of a float operation is first converted to a float.\<close>

definition float_of_int :: "int \<Rightarrow> pyfloat" where
  "float_of_int i = fl (of_int i)"

text \<open>C's \<open>fmod\<close>, which is exact: the remainder has the sign of the dividend.\<close>

definition trunc :: "rat \<Rightarrow> int" where
  "trunc x = (if 0 \<le> x then \<lfloor>x\<rfloor> else \<lceil>x\<rceil>)"

definition fmod :: "rat \<Rightarrow> rat \<Rightarrow> rat" where
  "fmod a c = a - c * of_int (trunc (a / c))"

text \<open>
  \<open>a % c\<close> on floats, as CPython computes it: \<open>fmod\<close>, and when the remainder is not
  zero and its sign differs from the divisor's, the divisor is added in a float addition.
  An infinite or NaN dividend gives NaN.
\<close>

fun py_mod :: "pyfloat \<Rightarrow> rat \<Rightarrow> pyfloat" where
  "py_mod (Fin a) c =
     (let m = fmod a c
      in if m \<noteq> 0 then (if (c < 0) \<noteq> (m < 0) then fl (m + c) else Fin m) else Fin 0)"
| "py_mod PInf c = NaN"
| "py_mod NInf c = NaN"
| "py_mod NaN c = NaN"

text \<open>
  \<open>a // c\<close> on floats, as CPython computes it: the quotient \<open>(a - fmod a c) / c\<close>, lowered
  by one when the remainder had to be adjusted, then floored, and raised by one when it
  lies more than a half above its floor.
\<close>

fun py_floor_quotient :: "pyfloat \<Rightarrow> pyfloat" where
  "py_floor_quotient (Fin d) =
     (if d \<noteq> 0
      then (case fsub (Fin d) (Fin (of_int \<lfloor>d\<rfloor>)) of
              Fin r \<Rightarrow> if 1 / 2 < r then fl (of_int \<lfloor>d\<rfloor> + 1) else Fin (of_int \<lfloor>d\<rfloor>)
            | _ \<Rightarrow> Fin (of_int \<lfloor>d\<rfloor>))
      else Fin 0)"
| "py_floor_quotient PInf = PInf"
| "py_floor_quotient NInf = NInf"
| "py_floor_quotient NaN = NaN"

fun py_floordiv :: "pyfloat \<Rightarrow> rat \<Rightarrow> pyfloat" where
  "py_floordiv (Fin a) c =
     (let m = fmod a c;
          d = fdiv (fsub (Fin a) (Fin m)) c
      in py_floor_quotient (if m \<noteq> 0 \<and> (c < 0) \<noteq> (m < 0) then fsub d (Fin 1) else d))"
| "py_floordiv PInf c = NaN"
| "py_floordiv NInf c = NaN"
| "py_floordiv NaN c = NaN"

text \<open>
  \<open>int(x)\<close> on a float truncates towards zero; it raises ValueError on NaN and
  OverflowError on an infinity.
\<close>

fun py_int :: "pyfloat \<Rightarrow> error + int" where
  "py_int (Fin x) = Inr (trunc x)"
| "py_int NaN = Inl ValueError"
| "py_int PInf = Inl OverflowError"
| "py_int NInf = Inl OverflowError"

text \<open>
  \<open>xs[i]\<close> on a list: a negative index counts from the end, and an index outside
  \<open>-len .. len - 1\<close> raises IndexError.
\<close>

definition py_getitem :: "'a list \<Rightarrow> int \<Rightarrow> error + 'a" where
  "py_getitem xs i =
     (if 0 \<le> i \<and> i < int (length xs) then Inr (xs ! nat i)
      else if - int (length xs) \<le> i \<and> i < 0 then Inr (xs ! nat (int (length xs) + i))
      else Inl IndexError)"

text \<open>\<open>d[k]\<close> on a dict literal with integer keys: a missing key raises KeyError.\<close>

definition py_dict_getitem :: "(int \<times> 'v) list \<Rightarrow> int \<Rightarrow> error + 'v" where
  "py_dict_getitem d k = (case map_of d k of None \<Rightarrow> Inl (KeyError k) | Some v \<Rightarrow> Inr v)"

text \<open>The decimal text of an integer, as an f-string field \<open>{d}\<close> prints it.\<close>

definition digit_char :: "nat \<Rightarrow> char" where
  "digit_char n = char_of (48 + n)"

fun str_nat :: "nat \<Rightarrow> string" where
  "str_nat n = (if n < 10 then [digit_char n] else str_nat (n div 10) @ [digit_char (n mod 10)])"

declare str_nat.simps [simp del]

definition py_str :: "int \<Rightarrow> string" where
  "py_str i = (if i < 0 then CHR ''-'' # str_nat (nat (- i)) else str_nat (nat i))"

subsection \<open>Constants\<close>

definition ZODIAC_SIGNS :: "string list" where
  "ZODIAC_SIGNS =
     [''Aries'', ''Taurus'', ''Gemini'', ''Cancer'', ''Leo'', ''Virgo'',
      ''Libra'', ''Scorpio'', ''Sagittarius'', ''Capricorn'', ''Aquarius'', ''Pisces'']"

definition NAKSHATRAS :: "string list" where
  "NAKSHATRAS =
     [''Ashwini'', ''Bharani'', ''Krittika'', ''Rohini'', ''Mrigashira'', ''Ardra'',
      ''Punarvasu'', ''Pushya'', ''Ashlesha'', ''Magha'', ''Purva Phalguni'', ''Uttara Phalguni'',
      ''Hasta'', ''Chitra'', ''Swati'', ''Vishakha'', ''Anuradha'', ''Jyeshtha'', ''Mula'',
      ''Purva Ashadha'', ''Uttara Ashadha'', ''Shravana'', ''Dhanishta'', ''Shatabhisha'',
      ''Purva Bhadrapada'', ''Uttara Bhadrapada'', ''Revati'']"

text \<open>
  The three separators of the DMS string, as the bytes of the source file: the degree
  sign U+00B0, the prime U+2032 and the double prime U+2033.
\<close>

definition degree_sign :: string where
  "degree_sign = [CHR 0xC2, CHR 0xB0]"

definition prime_sign :: string where
  "prime_sign = [CHR 0xE2, CHR 0x80, CHR 0xB2]"

definition double_prime_sign :: string where
  "double_prime_sign = [CHR 0xE2, CHR 0x80, CHR 0xB3]"

subsection \<open>Utilities\<close>

definition normalize_deg :: "pyfloat \<Rightarrow> pyfloat" where
  "normalize_deg deg = py_mod deg 360"

text \<open>
  The three index expressions of \<open>deg_to_zodiac\<close>, each a function of the already
  normalized \<open>degree\<close>, named as the local variables they are assigned to.
\<close>

definition zodiac_index :: "pyfloat \<Rightarrow> error + int" where
  "zodiac_index degree = py_int (py_floordiv degree 30)"

definition nak_index :: "pyfloat \<Rightarrow> error + int" where
  "nak_index degree = py_int (fdiv (py_mod degree 360) (int_truediv 360 27))"

definition pada :: "pyfloat \<Rightarrow> error + int" where
  "pada degree =
     (case py_int (fdiv (py_mod (py_mod degree (int_truediv 360 27)) (int_truediv 360 27))
                        (int_truediv 360 108)) of
        Inl e \<Rightarrow> Inl e
      | Inr k \<Rightarrow> Inr (k + 1))"

definition deg_to_zodiac :: "pyfloat \<Rightarrow> error + (string \<times> string \<times> int \<times> pyfloat)" where
  "deg_to_zodiac degree0 =
     (let degree = normalize_deg degree0 in
      case zodiac_index degree of
        Inl e \<Rightarrow> Inl e
      | Inr zi \<Rightarrow>
     (case py_getitem ZODIAC_SIGNS zi of
        Inl e \<Rightarrow> Inl e
      | Inr zodiac \<Rightarrow>
     (let sign_degree = py_mod degree 30 in
      case nak_index degree of
        Inl e \<Rightarrow> Inl e
      | Inr ni \<Rightarrow>
     (case py_getitem NAKSHATRAS ni of
        Inl e \<Rightarrow> Inl e
      | Inr nakshatra \<Rightarrow>
     (case pada degree of
        Inl e \<Rightarrow> Inl e
      | Inr p \<Rightarrow> Inr (zodiac, nakshatra, p, sign_degree))))))"

text \<open>The degree, minute and second fields computed by \<open>format_result\<close>.\<close>

definition dms :: "pyfloat \<Rightarrow> error + (int \<times> int \<times> int)" where
  "dms sign_degree =
     (case py_int sign_degree of
        Inl e \<Rightarrow> Inl e
      | Inr d \<Rightarrow>
     (case py_int (fmul (fsub sign_degree (float_of_int d)) 60) of
        Inl e \<Rightarrow> Inl e
      | Inr m \<Rightarrow>
     (case py_int (fmul (fsub (fmul (fsub sign_degree (float_of_int d)) 60) (float_of_int m)) 60) of
        Inl e \<Rightarrow> Inl e
      | Inr s \<Rightarrow> Inr (d, m, s))))"

definition format_result :: "pyfloat \<Rightarrow> error + (string \<times> string \<times> string \<times> int)" where
  "format_result deg0 =
     (let deg = normalize_deg deg0 in
      case deg_to_zodiac deg of
        Inl e \<Rightarrow> Inl e
      | Inr (zodiac, nakshatra, pada', sign_degree) \<Rightarrow>
     (case dms sign_degree of
        Inl e \<Rightarrow> Inl e
      | Inr (d, m, s) \<Rightarrow>
          Inr (py_str d @ degree_sign @ py_str m @ prime_sign @ py_str s @ double_prime_sign,
               zodiac, nakshatra, pada')))"

subsection \<open>Core point calculations\<close>

definition calc_bhrigu_bindu :: "pyfloat \<Rightarrow> pyfloat \<Rightarrow> error + (string \<times> string \<times> string \<times> int)" where
  "calc_bhrigu_bindu moon_deg rahu_deg = format_result (fdiv (fadd moon_deg rahu_deg) 2)"

definition calc_prana_sphuta :: "pyfloat \<Rightarrow> pyfloat \<Rightarrow> pyfloat \<Rightarrow> error + (string \<times> string \<times> string \<times> int)" where
  "calc_prana_sphuta lagna_deg sun_deg moon_deg = format_result (fadd (fadd lagna_deg sun_deg) moon_deg)"

definition calc_deha_sphuta :: "pyfloat \<Rightarrow> pyfloat \<Rightarrow> pyfloat \<Rightarrow> error + (string \<times> string \<times> string \<times> int)" where
  "calc_deha_sphuta lagna_deg sun_deg moon_deg = format_result (fsub (fadd lagna_deg moon_deg) sun_deg)"

definition calc_mrityu_sphuta :: "pyfloat \<Rightarrow> pyfloat \<Rightarrow> pyfloat \<Rightarrow> error + (string \<times> string \<times> string \<times> int)" where
  "calc_mrityu_sphuta lagna_deg sun_deg moon_deg = format_result (fsub (fadd lagna_deg sun_deg) moon_deg)"

definition calc_tithi_sphuta :: "pyfloat \<Rightarrow> pyfloat \<Rightarrow> error + (string \<times> string \<times> string \<times> int)" where
  "calc_tithi_sphuta sun_deg moon_deg = format_result (fadd sun_deg moon_deg)"

definition calc_chatusphuta :: "pyfloat \<Rightarrow> pyfloat \<Rightarrow> pyfloat \<Rightarrow> pyfloat \<Rightarrow> error + (string \<times> string \<times> string \<times> int)" where
  "calc_chatusphuta lagna sun moon gulika = format_result (fadd (fadd (fadd lagna sun) moon) gulika)"

definition calc_panchasphuta :: "pyfloat \<Rightarrow> pyfloat \<Rightarrow> pyfloat \<Rightarrow> pyfloat \<Rightarrow> pyfloat \<Rightarrow> error + (string \<times> string \<times> string \<times> int)" where
  "calc_panchasphuta lagna sun moon gulika mandi =
     format_result (fadd (fadd (fadd (fadd lagna sun) moon) gulika) mandi)"

definition calc_yoga_sphuta :: "pyfloat \<Rightarrow> pyfloat \<Rightarrow> error + (string \<times> string \<times> string \<times> int)" where
  "calc_yoga_sphuta sun moon = format_result (fadd sun moon)"

text \<open>The argument that \<open>calc_avayoga_sphuta\<close> hands to \<open>format_result\<close>.\<close>

definition avayoga_deg :: "pyfloat \<Rightarrow> pyfloat \<Rightarrow> pyfloat" where
  "avayoga_deg sun moon = fsub (Fin 360) (py_mod (fadd sun moon) 360)"

definition calc_avayoga_sphuta :: "pyfloat \<Rightarrow> pyfloat \<Rightarrow> error + (string \<times> string \<times> string \<times> int)" where
  "calc_avayoga_sphuta sun moon = format_result (avayoga_deg sun moon)"

definition gulika_portions :: "(int \<times> int) list" where
  "gulika_portions = [(0, 7), (1, 6), (2, 5), (3, 4), (4, 3), (5, 2), (6, 1)]"

definition mandi_portions :: "(int \<times> int) list" where
  "mandi_portions = [(0, 6), (1, 5), (2, 4), (3, 3), (4, 2), (5, 1), (6, 0)]"

definition calc_gulika :: "int \<Rightarrow> pyfloat \<Rightarrow> error + pyfloat" where
  "calc_gulika weekday sunrise_deg =
     (case py_dict_getitem gulika_portions weekday of
        Inl e \<Rightarrow> Inl e
      | Inr portion \<Rightarrow>
          (let offset_min = fmul (float_of_int portion) (int_truediv 720 8)
           in Inr (normalize_deg (fadd sunrise_deg (fdiv offset_min 4)))))"

definition calc_mandi :: "int \<Rightarrow> pyfloat \<Rightarrow> error + pyfloat" where
  "calc_mandi weekday sunrise_deg =
     (case py_dict_getitem mandi_portions weekday of
        Inl e \<Rightarrow> Inl e
      | Inr portion \<Rightarrow>
          (let offset_min = fmul (float_of_int portion) (int_truediv 720 8)
           in Inr (normalize_deg (fadd sunrise_deg (fdiv offset_min 4)))))"

subsection \<open>The formulas as the specification words them\<close>

text \<open>
  These definitions follow the specification, not the code; they are only compared with
  the definitions above. \<open>exact_mod\<close> is the mathematical \<open>degree mod 360\<close> of the
  normalizer's contract, with no rounding. The two weekday portion tables are listed as the
  specification lists them. The pada is written with \<open>floor\<close>, once with the modulo by the
  nakshatra span applied twice and once with it applied a single time; \<open>py_floor\<close> is
  \<open>math.floor\<close>, which raises on NaN and on an infinity as \<open>int\<close> does.
\<close>

definition exact_mod :: "rat \<Rightarrow> rat \<Rightarrow> rat" where
  "exact_mod a c = a - c * of_int \<lfloor>a / c\<rfloor>"

definition spec_gulika_portion :: "int \<Rightarrow> int" where
  "spec_gulika_portion w = [7, 6, 5, 4, 3, 2, 1] ! nat w"

definition spec_mandi_portion :: "int \<Rightarrow> int" where
  "spec_mandi_portion w = [6, 5, 4, 3, 2, 1, 0] ! nat w"

fun py_floor :: "pyfloat \<Rightarrow> error + int" where
  "py_floor (Fin x) = Inr \<lfloor>x\<rfloor>"
| "py_floor NaN = Inl ValueError"
| "py_floor PInf = Inl OverflowError"
| "py_floor NInf = Inl OverflowError"

definition nakSpan :: rat where
  "nakSpan = int_truediv 360 27"

definition padaSpan :: rat where
  "padaSpan = int_truediv 360 108"

definition pada_double :: "pyfloat \<Rightarrow> error + int" where
  "pada_double degree =
     (case py_floor (fdiv (py_mod (py_mod degree nakSpan) nakSpan) padaSpan) of
        Inl e \<Rightarrow> Inl e
      | Inr k \<Rightarrow> Inr (k + 1))"

definition pada_single :: "pyfloat \<Rightarrow> error + int" where
  "pada_single degree =
     (case py_floor (fdiv (py_mod degree nakSpan) padaSpan) of
        Inl e \<Rightarrow> Inl e
      | Inr k \<Rightarrow> Inr (k + 1))"

section \<open>Properties\<close>

subsection \<open>Binary exponent and rounding\<close>

lemma bitlen_pos: "0 < x \<Longrightarrow> 1 \<le> bitlen x"
  by (auto simp: bitlen_alt_def)

lemma ilog2_lower:
  assumes "0 < y"
  shows "2 powi (ilog2 y) \<le> y"
proof (cases "1 \<le> y")
  case True
  define n where "n = \<lfloor>y\<rfloor>"
  have n: "0 < n" using True by (simp add: n_def)
  have b: "1 \<le> bitlen n" using n by (rule bitlen_pos)
  have "2 ^ nat (bitlen n - 1) \<le> n" using bitlen_bounds [OF n] by simp
  then have "(of_int (2 ^ nat (bitlen n - 1)) :: rat) \<le> of_int n" by (simp only: of_int_le_iff)
  also have "\<dots> \<le> y" by (simp add: n_def)
  finally have "(2::rat) ^ nat (bitlen n - 1) \<le> y" by simp
  moreover have "ilog2 y = bitlen n - 1" using True by (simp add: ilog2_def n_def)
  ultimately show ?thesis using b by (simp add: power_int_def)
next
  case False
  define z where "z = 1 / y"
  define n where "n = \<lceil>z\<rceil> - 1"
  have z: "1 < z" using False assms by (simp add: z_def)
  have n: "0 < n" using z by (simp add: n_def less_ceiling_iff)
  have b: "1 \<le> bitlen n" using n by (rule bitlen_pos)
  have "n < 2 ^ nat (bitlen n)" using bitlen_bounds [OF n] by simp
  then have "n + 1 \<le> 2 ^ nat (bitlen n)" by simp
  then have "(of_int (n + 1) :: rat) \<le> of_int (2 ^ nat (bitlen n))" by (simp only: of_int_le_iff)
  moreover have "z \<le> of_int (n + 1)" by (simp add: n_def)
  ultimately have zle: "z \<le> 2 ^ nat (bitlen n)" by simp
  have "1 / 2 ^ nat (bitlen n) \<le> 1 / z" using zle z by (simp add: frac_le)
  moreover have "1 / z = y" by (simp add: z_def)
  moreover have "ilog2 y = - bitlen n" using False by (simp add: ilog2_def n_def z_def)
  ultimately show ?thesis using b by (simp add: power_int_def field_simps)
qed

lemma ilog2_upper:
  assumes "0 < y"
  shows "y < 2 powi (ilog2 y + 1)"
proof (cases "1 \<le> y")
  case True
  define n where "n = \<lfloor>y\<rfloor>"
  have n: "0 < n" using True by (simp add: n_def)
  have b: "1 \<le> bitlen n" using n by (rule bitlen_pos)
  have "n < 2 ^ nat (bitlen n)" using bitlen_bounds [OF n] by simp
  then have "n + 1 \<le> 2 ^ nat (bitlen n)" by simp
  then have "(of_int (n + 1) :: rat) \<le> of_int (2 ^ nat (bitlen n))" by (simp only: of_int_le_iff)
  moreover have "y < of_int (n + 1)" unfolding n_def by linarith
  ultimately have "y < 2 ^ nat (bitlen n)" by simp
  moreover have "ilog2 y = bitlen n - 1" using True by (simp add: ilog2_def n_def)
  ultimately show ?thesis using b by (simp add: power_int_def)
next
  case False
  define z where "z = 1 / y"
  define n where "n = \<lceil>z\<rceil> - 1"
  have z: "1 < z" using False assms by (simp add: z_def)
  have n: "0 < n" using z by (simp add: n_def less_ceiling_iff)
  have b: "1 \<le> bitlen n" using n by (rule bitlen_pos)
  have "2 ^ nat (bitlen n - 1) \<le> n" using bitlen_bounds [OF n] by simp
  then have "(of_int (2 ^ nat (bitlen n - 1)) :: rat) \<le> of_int n" by (simp only: of_int_le_iff)
  moreover have "of_int n < z" unfolding n_def by linarith
  ultimately have "of_int (2 ^ nat (bitlen n - 1)) < z" by (rule le_less_trans)
  then have zl: "2 ^ nat (bitlen n - 1) < z" by simp
  have "1 / z < 1 / 2 ^ nat (bitlen n - 1)" using zl by (simp add: frac_less2)
  moreover have "1 / z = y" by (simp add: z_def)
  ultimately have yl: "y < 1 / 2 ^ nat (bitlen n - 1)" by simp
  have "ilog2 y + 1 = - (bitlen n - 1)" using False by (simp add: ilog2_def n_def z_def)
  then have "(2::rat) powi (ilog2 y + 1) = 1 / 2 powi (bitlen n - 1)"
    by (simp only: power_int_minus_divide)
  also have "\<dots> = 1 / 2 ^ nat (bitlen n - 1)"
    using b by (simp add: power_int_def)
  finally show ?thesis using yl by simp
qed

lemma pow2_less_cancel: "(2::rat) powi a < 2 powi b \<Longrightarrow> a < b"
proof (rule ccontr)
  assume l: "(2::rat) powi a < 2 powi b" and "\<not> a < b"
  then have "b \<le> a" by simp
  then have "(2::rat) powi b \<le> 2 powi a" by (rule power_int_increasing) simp
  with l show False by simp
qed

lemma ilog2_less:
  assumes "0 < y" "y < 2 powi k"
  shows "ilog2 y < k"
proof -
  have "(2::rat) powi (ilog2 y) < 2 powi k"
    using ilog2_lower [OF assms(1)] assms(2) by simp
  then show ?thesis by (rule pow2_less_cancel)
qed

lemma ilog2_ge:
  assumes "0 < y" "2 powi k \<le> y"
  shows "k \<le> ilog2 y"
proof -
  have "(2::rat) powi k < 2 powi (ilog2 y + 1)"
    using ilog2_upper [OF assms(1)] assms(2) by simp
  then have "k < ilog2 y + 1" by (rule pow2_less_cancel)
  then show ?thesis by simp
qed

lemma quantum_pos: "0 < quantum y"
  by (simp add: quantum_def)

lemma qexp_le:
  assumes "y \<noteq> 0" "\<bar>y\<bar> < 2 powi k" "- 1021 \<le> k"
  shows "qexp y \<le> k - 53"
proof -
  have "ilog2 \<bar>y\<bar> < k" using assms by (intro ilog2_less) simp_all
  then show ?thesis using assms(3) by (simp add: qexp_def)
qed

lemma qexp_ge: "- 1074 \<le> qexp y"
  by (simp add: qexp_def)


lemma rhe_floor_le: "\<lfloor>s\<rfloor> \<le> rhe s"
  by (simp add: rhe_def Let_def)

lemma rhe_le_ceiling: "rhe s \<le> \<lceil>s\<rceil>"
proof -
  have "\<lfloor>s\<rfloor> + 1 \<le> \<lceil>s\<rceil>" if "0 < s - of_int \<lfloor>s\<rfloor>"
    using that by linarith
  moreover have "\<lfloor>s\<rfloor> \<le> \<lceil>s\<rceil>" by linarith
  ultimately show ?thesis by (auto simp: rhe_def Let_def)
qed

lemma rhe_of_int: "rhe (of_int n) = n"
  by (simp add: rhe_def)

lemma rhe_le:
  assumes "s \<le> of_int N"
  shows "rhe s \<le> N"
proof -
  have "\<lceil>s\<rceil> \<le> N" using assms by (simp add: ceiling_le_iff)
  with rhe_le_ceiling [of s] show ?thesis by (rule order_trans)
qed

lemma rhe_ge:
  assumes "of_int N \<le> s"
  shows "N \<le> rhe s"
proof -
  have "N \<le> \<lfloor>s\<rfloor>" using assms by (simp add: le_floor_iff)
  then show ?thesis using rhe_floor_le [of s] by (rule order_trans)
qed

lemma rhe_error: "\<bar>of_int (rhe s) - s\<bar> \<le> 1 / 2"
proof -
  have "of_int \<lfloor>s\<rfloor> \<le> s" "s < of_int \<lfloor>s\<rfloor> + 1" by linarith+
  then show ?thesis by (auto simp: rhe_def Let_def abs_le_iff)
qed

lemma rnd_le:
  assumes "0 < y" "y \<le> B" "B / quantum y = of_int N"
  shows "rnd y \<le> B"
proof -
  have "y / quantum y \<le> B / quantum y"
    using assms(2) quantum_pos [of y] by (simp add: divide_right_mono)
  then have "rhe (y / quantum y) \<le> N" unfolding assms(3) by (rule rhe_le)
  then have "(of_int (rhe (y / quantum y)) :: rat) \<le> of_int N" by (simp only: of_int_le_iff)
  then have "of_int (rhe (y / quantum y)) * quantum y \<le> of_int N * quantum y"
    using quantum_pos [of y] by (simp add: mult_right_mono)
  moreover have "of_int N * quantum y = B"
    using assms(3) quantum_pos [of y] by (simp add: field_simps)
  ultimately show ?thesis using assms(1) by (simp add: rnd_def)
qed

lemma rnd_ge:
  assumes "0 < y" "B \<le> y" "B / quantum y = of_int N"
  shows "B \<le> rnd y"
proof -
  have "B / quantum y \<le> y / quantum y"
    using assms(2) quantum_pos [of y] by (simp add: divide_right_mono)
  then have "N \<le> rhe (y / quantum y)" unfolding assms(3) by (rule rhe_ge)
  then have "(of_int N :: rat) \<le> of_int (rhe (y / quantum y))" by (simp only: of_int_le_iff)
  then have "of_int N * quantum y \<le> of_int (rhe (y / quantum y)) * quantum y"
    using quantum_pos [of y] by (simp add: mult_right_mono)
  moreover have "of_int N * quantum y = B"
    using assms(3) quantum_pos [of y] by (simp add: field_simps)
  ultimately show ?thesis using assms(1) by (simp add: rnd_def)
qed

lemma rnd_nonneg:
  assumes "0 \<le> y"
  shows "0 \<le> rnd y"
proof (cases "y = 0")
  case True
  then show ?thesis by (simp add: rnd_def)
next
  case False
  with assms have "0 < y" by simp
  then show ?thesis using rnd_ge [of y 0 0] by simp
qed

lemma rnd_exact:
  assumes "y / quantum y = of_int N"
  shows "rnd y = y"
proof (cases "y = 0")
  case True
  then show ?thesis by (simp add: rnd_def)
next
  case False
  have "of_int N * quantum y = y"
    using assms quantum_pos [of y] by (simp add: field_simps)
  then show ?thesis using False by (simp add: rnd_def assms rhe_of_int)
qed

lemma rnd_error: "\<bar>rnd y - y\<bar> \<le> quantum y / 2"
proof (cases "y = 0")
  case True
  then show ?thesis using quantum_pos [of 0] by (simp add: rnd_def)
next
  case False
  define q where "q = quantum y"
  have q: "0 < q" unfolding q_def by (rule quantum_pos)
  have "rnd y - y = (of_int (rhe (y / q)) - y / q) * q"
    using False q by (simp add: rnd_def q_def field_simps)
  then have "\<bar>rnd y - y\<bar> = \<bar>of_int (rhe (y / q)) - y / q\<bar> * q"
    using q by (simp add: abs_mult)
  also have "\<dots> \<le> 1 / 2 * q"
    using rhe_error [of "y / q"] q by (intro mult_right_mono) simp_all
  finally show ?thesis by (simp add: q_def)
qed

text \<open>Multiples of a power of two that is at least the quantum are on the grid.\<close>

lemma on_grid:
  assumes "qexp y \<le> j"
  shows "\<exists>N. of_int m * 2 powi j / quantum y = of_int N"
proof -
  have e: "(2::rat) powi j / 2 powi (qexp y) = 2 ^ nat (j - qexp y)"
  proof -
    have "(2::rat) powi j / 2 powi (qexp y) = 2 powi (j - qexp y)"
      by (simp add: power_int_diff)
    also have "\<dots> = 2 ^ nat (j - qexp y)"
      using assms by (simp add: power_int_def)
    finally show ?thesis .
  qed
  have "of_int m * 2 powi j / quantum y = of_int m * (2 powi j / 2 powi (qexp y))"
    by (simp add: quantum_def)
  also have "\<dots> = of_int m * 2 ^ nat (j - qexp y)"
    by (simp only: e)
  also have "\<dots> = of_int (m * 2 ^ nat (j - qexp y))"
    by simp
  finally show ?thesis ..
qed

lemma ilog2_eqI:
  assumes "2 powi e \<le> y" "y < 2 powi (e + 1)"
  shows "ilog2 y = e"
proof -
  have "(0::rat) < 2 powi e" by simp
  then have y: "0 < y" using assms(1) by (rule less_le_trans)
  have "ilog2 y < e + 1" using y assms(2) by (rule ilog2_less)
  moreover have "e \<le> ilog2 y" using y assms(1) by (rule ilog2_ge)
  ultimately show ?thesis by simp
qed

lemma rhe_tie_even:
  assumes "\<bar>s - of_int N\<bar> \<le> 1 / 2" "even N"
  shows "rhe s = N"
proof (cases "of_int N \<le> s")
  case True
  have "\<lfloor>s\<rfloor> = N" using True assms(1) by (intro floor_unique) (simp_all add: abs_le_iff)
  then show ?thesis using assms by (auto simp: rhe_def Let_def abs_le_iff)
next
  case False
  have "\<lfloor>s\<rfloor> = N - 1" using False assms(1) by (intro floor_unique) (simp_all add: abs_le_iff)
  then show ?thesis using assms False by (auto simp: rhe_def Let_def abs_le_iff)
qed

lemma rhe_eqI:
  assumes "\<bar>s - of_int N\<bar> < 1 / 2"
  shows "rhe s = N"
proof (cases "of_int N \<le> s")
  case True
  have "\<lfloor>s\<rfloor> = N" using True assms(1) by (intro floor_unique) (simp_all add: abs_less_iff)
  then show ?thesis using assms by (auto simp: rhe_def Let_def abs_less_iff)
next
  case False
  have "\<lfloor>s\<rfloor> = N - 1" using False assms(1) by (intro floor_unique) (simp_all add: abs_less_iff)
  then show ?thesis using assms False by (auto simp: rhe_def Let_def abs_less_iff)
qed

lemma quantum_eqI:
  assumes "2 powi e \<le> \<bar>y\<bar>" "\<bar>y\<bar> < 2 powi (e + 1)"
  shows "quantum y = 2 powi (max (e - 52) (- 1074))"
  using ilog2_eqI [OF assms] by (simp add: quantum_def qexp_def)

lemma rnd_eqI:
  assumes "2 powi e \<le> \<bar>y\<bar>" "\<bar>y\<bar> < 2 powi (e + 1)"
    and "\<bar>y / 2 powi (max (e - 52) (- 1074)) - of_int N\<bar> < 1 / 2"
  shows "rnd y = of_int N * 2 powi (max (e - 52) (- 1074))"
proof -
  have "(0::rat) < 2 powi e" by simp
  then have "0 < \<bar>y\<bar>" using assms(1) by (rule less_le_trans)
  then have "y \<noteq> 0" by simp
  moreover have "rhe (y / quantum y) = N"
    unfolding quantum_eqI [OF assms(1,2)] using assms(3) by (rule rhe_eqI)
  ultimately show ?thesis by (simp add: rnd_def quantum_eqI [OF assms(1,2)])
qed

lemma rnd_tieI:
  assumes "2 powi e \<le> \<bar>y\<bar>" "\<bar>y\<bar> < 2 powi (e + 1)"
    and "\<bar>y / 2 powi (max (e - 52) (- 1074)) - of_int N\<bar> \<le> 1 / 2" "even N"
  shows "rnd y = of_int N * 2 powi (max (e - 52) (- 1074))"
proof -
  have "(0::rat) < 2 powi e" by simp
  then have "0 < \<bar>y\<bar>" using assms(1) by (rule less_le_trans)
  then have "y \<noteq> 0" by simp
  moreover have "rhe (y / quantum y) = N"
    unfolding quantum_eqI [OF assms(1,2)] using assms(3,4) by (rule rhe_tie_even)
  ultimately show ?thesis by (simp add: rnd_def quantum_eqI [OF assms(1,2)])
qed

lemma fl_rnd: "- (2 ^ 1024) < rnd y \<Longrightarrow> rnd y < 2 ^ 1024 \<Longrightarrow> fl y = Fin (rnd y)"
  by (simp add: fl_def Let_def)

lemma rnd_le_int:
  assumes "0 \<le> y" "y \<le> of_int n" "n < 2 ^ 53"
  shows "rnd y \<le> of_int n"
proof (cases "y = 0")
  case True
  then show ?thesis using assms by (simp add: rnd_def)
next
  case False
  with assms have y: "0 < y" by simp
  have "(of_int n :: rat) < of_int (2 ^ 53)" using assms(3) by (simp only: of_int_less_iff)
  then have "\<bar>y\<bar> < 2 powi 53" using y assms(2) by simp
  then have "qexp y \<le> 0" using qexp_le [of y 53] False by simp
  then obtain N where "of_int n * 2 powi 0 / quantum y = of_int N"
    using on_grid [of y 0 n] by blast
  then have "of_int n / quantum y = of_int N" by simp
  with y assms(2) show ?thesis by (rule rnd_le)
qed

lemma fl_bounded:
  assumes "0 \<le> y" "y \<le> of_int n" "n < 2 ^ 53"
  shows "fl y = Fin (rnd y)" "0 \<le> rnd y" "rnd y \<le> of_int n"
proof -
  show nn: "0 \<le> rnd y" using assms(1) by (rule rnd_nonneg)
  show le: "rnd y \<le> of_int n" using assms by (rule rnd_le_int)
  have "(of_int n :: rat) < of_int (2 ^ 53)" using assms(3) by (simp only: of_int_less_iff)
  also have "\<dots> < 2 ^ 1024" by simp
  finally have "rnd y < 2 ^ 1024" using le by simp
  moreover have "- (2 ^ 1024) < rnd y" using nn by (simp add: less_le_trans [of _ 0])
  ultimately show "fl y = Fin (rnd y)" by (rule_tac fl_rnd)
qed

lemma rnd_grid:
  assumes "y = of_int m * 2 powi j" "\<bar>y\<bar> < 2 powi k" "k - 53 \<le> j" "- 1074 \<le> j" 
  shows "rnd y = y"
proof (cases "y = 0")
  case True
  then show ?thesis by (simp add: rnd_def)
next
  case False
  have "ilog2 \<bar>y\<bar> < k" using False assms(2) by (intro ilog2_less) simp_all
  then have "qexp y \<le> j" using assms(3,4) by (simp add: qexp_def)
  then obtain N where "of_int m * 2 powi j / quantum y = of_int N"
    using on_grid [of y j m] by blast
  then have "y / quantum y = of_int N" by (simp only: assms(1))
  then show ?thesis by (rule rnd_exact)
qed

lemma rnd_int: "\<bar>n\<bar> < 2 ^ 53 \<Longrightarrow> rnd (of_int n) = of_int n"
proof -
  assume "\<bar>n\<bar> < 2 ^ 53"
  then have "(of_int \<bar>n\<bar> :: rat) < of_int (2 ^ 53)" by (simp only: of_int_less_iff)
  then have "\<bar>of_int n :: rat\<bar> < 2 powi 53" by simp
  then show ?thesis by (intro rnd_grid [where m = n and j = 0 and k = 53]) simp_all
qed

lemma rnd_half: "\<bar>n\<bar> < 2 ^ 53 \<Longrightarrow> rnd (of_int n / 2) = of_int n / 2"
proof -
  assume "\<bar>n\<bar> < 2 ^ 53"
  then have "(of_int \<bar>n\<bar> :: rat) < of_int (2 ^ 53)" by (simp only: of_int_less_iff)
  then have "\<bar>of_int n / 2 :: rat\<bar> < 2 powi 52" by simp
  then show ?thesis by (intro rnd_grid [where m = n and j = "- 1" and k = 52]) simp_all
qed

lemma fl_int: "\<bar>n\<bar> < 2 ^ 53 \<Longrightarrow> fl (of_int n) = Fin (of_int n)"
proof -
  assume a: "\<bar>n\<bar> < 2 ^ 53"
  then have "(of_int \<bar>n\<bar> :: rat) < of_int (2 ^ 53)" by (simp only: of_int_less_iff)
  also have "\<dots> < 2 ^ 1024" by simp
  finally have "\<bar>of_int n :: rat\<bar> < 2 ^ 1024" by simp
  then show ?thesis by (simp add: fl_def rnd_int [OF a] abs_less_iff)
qed

lemma fl_half: "\<bar>n\<bar> < 2 ^ 53 \<Longrightarrow> fl (of_int n / 2) = Fin (of_int n / 2)"
proof -
  assume a: "\<bar>n\<bar> < 2 ^ 53"
  then have "(of_int \<bar>n\<bar> :: rat) < of_int (2 ^ 53)" by (simp only: of_int_less_iff)
  also have "\<dots> < 2 ^ 1024" by simp
  finally have "\<bar>of_int n / 2 :: rat\<bar> < 2 ^ 1024" by simp
  then show ?thesis by (simp add: fl_def rnd_half [OF a] abs_less_iff)
qed

text \<open>Concrete roundings.\<close>

lemma nak_span_value: "int_truediv 360 27 = 7505999378950827 / 562949953421312"
  unfolding int_truediv_def
  using rnd_eqI [of 3 "360 / 27" 7505999378950827] by simp

lemma pada_span_value: "int_truediv 360 108 = 7505999378950827 / 2251799813685248"
  unfolding int_truediv_def
  using rnd_eqI [of 1 "360 / 108" 7505999378950827] by simp

lemma day_portion_value: "int_truediv 720 8 = 90"
  unfolding int_truediv_def using rnd_int [of 90] by simp

lemma rnd_below_360: "rnd (360 - 1 / 2 ^ 70) = 360"
  using rnd_eqI [of 8 "360 - 1 / 2 ^ 70" 6333186975989760] by simp

lemma rnd_tie_example: "rnd (9007902942182769 / 17592186044416) = 562993933886423 / 1099511627776"
  using rnd_tieI [of 9 "9007902942182769 / 17592186044416" 4503951471091384] by simp

subsection \<open>Remainders and normalization\<close>

lemma exact_mod_nonneg: "0 < c \<Longrightarrow> 0 \<le> exact_mod a c"
proof -
  assume c: "0 < c"
  have "of_int \<lfloor>a / c\<rfloor> \<le> a / c" by simp
  then have "of_int \<lfloor>a / c\<rfloor> * c \<le> a" using c by (simp only: pos_le_divide_eq)
  then show ?thesis by (simp add: exact_mod_def mult.commute)
qed

lemma exact_mod_less: "0 < c \<Longrightarrow> exact_mod a c < c"
proof -
  assume c: "0 < c"
  have "a / c < of_int \<lfloor>a / c\<rfloor> + 1" by linarith
  then have "a < (of_int \<lfloor>a / c\<rfloor> + 1) * c" using c by (simp only: pos_divide_less_eq)
  then show ?thesis by (simp add: exact_mod_def algebra_simps)
qed

lemma exact_mod_id: "0 \<le> a \<Longrightarrow> a < c \<Longrightarrow> exact_mod a c = a"
proof -
  assume a: "0 \<le> a" "a < c"
  then have "\<lfloor>a / c\<rfloor> = 0" by (intro floor_unique) simp_all
  then show ?thesis by (simp add: exact_mod_def)
qed

lemma exact_mod_eqI:
  assumes "0 < c" "0 \<le> a - c * of_int k" "a - c * of_int k < c"
  shows "exact_mod a c = a - c * of_int k"
proof -
  have "of_int k \<le> a / c" using assms(1,2) by (simp add: field_simps)
  moreover have "a / c < of_int k + 1" using assms(1,3) by (simp add: field_simps)
  ultimately have "\<lfloor>a / c\<rfloor> = k" by (rule floor_unique)
  then show ?thesis by (simp add: exact_mod_def)
qed

lemma exact_mod_shift: "c \<noteq> 0 \<Longrightarrow> exact_mod (a + c * of_int k) c = exact_mod a c"
proof -
  assume c: "c \<noteq> 0"
  have "(a + c * of_int k) / c = a / c + of_int k" using c by (simp add: field_simps)
  then have "\<lfloor>(a + c * of_int k) / c\<rfloor> = \<lfloor>a / c\<rfloor> + k" by simp
  then show ?thesis by (simp add: exact_mod_def algebra_simps)
qed

lemma exact_mod_add: "c \<noteq> 0 \<Longrightarrow> exact_mod (exact_mod a c + b) c = exact_mod (a + b) c"
proof -
  assume c: "c \<noteq> 0"
  have "exact_mod a c + b = (a + b) + c * of_int (- \<lfloor>a / c\<rfloor>)"
    by (simp add: exact_mod_def)
  then show ?thesis using exact_mod_shift [OF c, of "a + b" "- \<lfloor>a / c\<rfloor>"] by (simp only:)
qed

lemma fl_zero: "fl 0 = Fin 0"
  by (simp add: fl_def rnd_def)

lemma fmod_nonneg_arg: "0 \<le> a \<Longrightarrow> 0 < c \<Longrightarrow> fmod a c = exact_mod a c"
  by (simp add: fmod_def trunc_def exact_mod_def)

lemma py_mod_nonneg_arg:
  assumes "0 \<le> a" "0 < c"
  shows "py_mod (Fin a) c = Fin (exact_mod a c)"
proof -
  have "0 \<le> exact_mod a c" using assms(2) by (rule exact_mod_nonneg)
  then show ?thesis
    using assms by (auto simp: fmod_nonneg_arg Let_def)
qed

lemma py_mod_id: "0 \<le> a \<Longrightarrow> a < c \<Longrightarrow> py_mod (Fin a) c = Fin a"
  using py_mod_nonneg_arg [of a c] by (simp add: exact_mod_id)

lemma fmod_neg_arg:
  assumes "a < 0" "0 < c"
  shows "fmod a c = (if exact_mod a c = 0 then 0 else exact_mod a c - c)"
proof -
  have neg: "a / c < 0" using assms by (simp add: divide_neg_pos)
  show ?thesis
  proof (cases "of_int \<lfloor>a / c\<rfloor> = a / c")
    case True
    then have ce: "\<lceil>a / c\<rceil> = \<lfloor>a / c\<rfloor>" by (metis ceiling_of_int)
    have ca: "c * of_int \<lfloor>a / c\<rfloor> = a"
    proof -
      have "c * of_int \<lfloor>a / c\<rfloor> = c * (a / c)" by (simp only: True)
      also have "\<dots> = a" using assms(2) by simp
      finally show ?thesis .
    qed
    have em: "exact_mod a c = 0" unfolding exact_mod_def ca by simp
    have "fmod a c = a - c * of_int \<lceil>a / c\<rceil>" using neg by (simp add: fmod_def trunc_def)
    also have "\<dots> = 0" unfolding ce ca by simp
    finally show ?thesis by (simp add: em)
  next
    case False
    then have c1: "\<lceil>a / c\<rceil> = \<lfloor>a / c\<rfloor> + 1"
      by (metis ceiling_altdef of_int_floor_cancel)
    have "c * of_int \<lfloor>a / c\<rfloor> \<noteq> a"
    proof
      assume h: "c * of_int \<lfloor>a / c\<rfloor> = a"
      have "a / c = (c * of_int \<lfloor>a / c\<rfloor>) / c" by (simp only: h)
      also have "\<dots> = of_int \<lfloor>a / c\<rfloor>" using assms(2) by simp
      finally show False using False by simp
    qed
    then show ?thesis using neg c1 by (simp add: fmod_def trunc_def exact_mod_def algebra_simps)
  qed
qed

lemma py_mod_neg_arg:
  assumes "a < 0" "0 < c"
  shows "py_mod (Fin a) c = fl (exact_mod a c)"
proof (cases "exact_mod a c = 0")
  case True
  then show ?thesis using assms by (simp add: fmod_neg_arg fl_zero)
next
  case False
  have "exact_mod a c < c" using assms(2) by (rule exact_mod_less)
  then show ?thesis using False assms by (simp add: fmod_neg_arg Let_def)
qed

lemma normalize_deg_nonneg_arg:
  "0 \<le> x \<Longrightarrow> normalize_deg (Fin x) = Fin (exact_mod x 360)"
  by (simp add: normalize_deg_def py_mod_nonneg_arg del: py_mod.simps)

lemma normalize_deg_neg_arg:
  assumes "x < 0"
  shows "normalize_deg (Fin x) = Fin (rnd (exact_mod x 360))"
    "0 \<le> rnd (exact_mod x 360)" "rnd (exact_mod x 360) \<le> 360"
proof -
  have b: "0 \<le> exact_mod x 360" "exact_mod x 360 \<le> of_int 360"
    using exact_mod_nonneg [of 360 x] exact_mod_less [of 360 x] by simp_all
  have "(360::int) < 2 ^ 53" by simp
  note f = fl_bounded [OF b this]
  show "normalize_deg (Fin x) = Fin (rnd (exact_mod x 360))"
    using assms f(1) by (simp add: normalize_deg_def py_mod_neg_arg del: py_mod.simps)
  show "0 \<le> rnd (exact_mod x 360)" by (rule f(2))
  show "rnd (exact_mod x 360) \<le> 360" using f(3) by simp
qed

lemma normalize_deg_cases:
  "normalize_deg x = NaN \<or> (\<exists>r. normalize_deg x = Fin r \<and> 0 \<le> r \<and> r \<le> 360)"
proof (cases x)
  case (Fin a)
  show ?thesis
  proof (cases "0 \<le> a")
    case True
    then show ?thesis
      using exact_mod_nonneg [of 360 a] exact_mod_less [of 360 a]
      by (simp add: Fin normalize_deg_nonneg_arg)
  next
    case False
    then have "a < 0" by simp
    from normalize_deg_neg_arg [OF this] show ?thesis by (simp add: Fin)
  qed
qed (simp_all add: normalize_deg_def)




subsection \<open>Decoding\<close>

lemma fl_Ints: "y \<in> \<int> \<Longrightarrow> \<bar>y\<bar> < 9007199254740992 \<Longrightarrow> fl y = Fin y"
proof -
  assume "y \<in> \<int>" and b: "\<bar>y\<bar> < 9007199254740992"
  then obtain n where n: "y = of_int n" by (auto elim: Ints_cases)
  have "(of_int \<bar>n\<bar> :: rat) < of_int 9007199254740992" using b unfolding n by simp
  then have "\<bar>n\<bar> < 9007199254740992" by (simp only: of_int_less_iff)
  then have "\<bar>n\<bar> < 2 ^ 53" by simp
  then show ?thesis unfolding n by (rule fl_int)
qed

lemma fl_halves: "2 * y \<in> \<int> \<Longrightarrow> \<bar>y\<bar> < 4503599627370496 \<Longrightarrow> fl y = Fin y"
proof -
  assume "2 * y \<in> \<int>" and b: "\<bar>y\<bar> < 4503599627370496"
  then obtain n where n: "2 * y = of_int n" by (auto elim: Ints_cases)
  then have y: "y = of_int n / 2" by simp
  have "(of_int \<bar>n\<bar> :: rat) < of_int 9007199254740992" using b unfolding y by simp
  then have "\<bar>n\<bar> < 9007199254740992" by (simp only: of_int_less_iff)
  then have "\<bar>n\<bar> < 2 ^ 53" by simp
  then show ?thesis unfolding y by (rule fl_half)
qed

lemma normalize_deg_tiny_negative: "normalize_deg (Fin (- 1 / 2 ^ 70)) = Fin 360"
proof -
  have "\<lfloor>(- 1 / 2 ^ 70) / 360 :: rat\<rfloor> = - 1" by (rule floor_unique) simp_all
  then have e: "exact_mod (- 1 / 2 ^ 70) 360 = 360 - 1 / 2 ^ 70" by (simp add: exact_mod_def)
  have "normalize_deg (Fin (- 1 / 2 ^ 70)) = Fin (rnd (exact_mod (- 1 / 2 ^ 70) 360))"
    by (rule normalize_deg_neg_arg(1)) simp
  then show ?thesis by (simp only: e rnd_below_360)
qed

lemma trunc_nonneg: "0 \<le> x \<Longrightarrow> trunc x = \<lfloor>x\<rfloor>"
  by (simp add: trunc_def)

lemma fsub_Fin: "fsub (Fin a) (Fin b) = fl (a - b)"
  by (simp add: fsub_def)

lemma py_floor_quotient_int:
  assumes "\<bar>k\<bar> < 2 ^ 53"
  shows "py_floor_quotient (Fin (of_int k)) = Fin (of_int k)"
  by (simp add: fsub_Fin fl_zero)

lemma zodiac_index_eq:
  assumes "0 \<le> d" "d \<le> 360"
  shows "zodiac_index (Fin d) = Inr \<lfloor>d / 30\<rfloor>"
proof -
  define k where "k = \<lfloor>d / 30\<rfloor>"
  have k0: "0 \<le> k" using assms(1) by (simp add: k_def)
  have "d / 30 \<le> 12" using assms(2) by simp
  then have "k \<le> 12" unfolding k_def by (metis floor_mono floor_numeral)
  with k0 have kb: "\<bar>30 * k\<bar> < 2 ^ 53" "\<bar>k\<bar> < 2 ^ 53" by simp_all
  have m: "fmod d 30 = exact_mod d 30" using assms(1) by (simp add: fmod_nonneg_arg)
  have m0: "0 \<le> exact_mod d 30" by (rule exact_mod_nonneg) simp
  have dm: "d - exact_mod d 30 = of_int (30 * k)" by (simp add: exact_mod_def k_def)
  have s: "fsub (Fin d) (Fin (exact_mod d 30)) = Fin (of_int (30 * k))"
    unfolding fsub_Fin dm using kb(1) by (rule fl_int)
  have q: "fdiv (Fin (of_int (30 * k))) 30 = Fin (of_int k)"
    using fl_int [OF kb(2)] by simp
  have "py_floordiv (Fin d) 30 = py_floor_quotient (Fin (of_int k))"
    using m0 by (simp add: m s fl_int [OF kb(2)] Let_def del: py_floor_quotient.simps)
  also have "\<dots> = Fin (of_int k)" using kb(2) by (rule py_floor_quotient_int)
  finally show ?thesis using k0 by (simp add: zodiac_index_def trunc_def k_def)
qed

lemma nak_span_bounds: "40 / 3 \<le> int_truediv 360 27" "0 < int_truediv 360 27" "int_truediv 360 27 < 30"
  by (simp_all add: nak_span_value)

lemma span_ratio: "int_truediv 360 27 / int_truediv 360 108 = 4" "0 < int_truediv 360 108"
  by (simp_all add: nak_span_value pada_span_value)

lemma nak_index_bound:
  assumes "0 \<le> d" "d < 360" "d \<le> of_int n * (40 / 3)" "n < 2 ^ 53"
  shows "\<exists>k. nak_index (Fin d) = Inr k \<and> 0 \<le> k \<and> k \<le> n"
proof -
  define c where "c = int_truediv 360 27"
  have c: "40 / 3 \<le> c" "0 < c" unfolding c_def by (rule nak_span_bounds)+
  have q0: "0 \<le> d / c" using assms(1) c(2) by simp
  have "d \<le> of_int n * c"
  proof -
    have "0 \<le> (of_int n :: rat)"
    proof (rule ccontr)
      assume "\<not> 0 \<le> (of_int n :: rat)"
      then have "(of_int n :: rat) * (40 / 3) < 0" by (simp add: mult_neg_pos)
      with assms(1,3) show False by simp
    qed
    then have "of_int n * (40 / 3) \<le> of_int n * c" using c(1) by (rule mult_left_mono [rotated])
    with assms(3) show ?thesis by simp
  qed
  then have q1: "d / c \<le> of_int n" using c(2) by (simp add: pos_divide_le_eq)
  note f = fl_bounded [OF q0 q1 assms(4)]
  have "nak_index (Fin d) = Inr (trunc (rnd (d / c)))"
    using assms(1,2) f(1) by (simp add: nak_index_def py_mod_id c_def del: py_mod.simps)
  moreover have "0 \<le> trunc (rnd (d / c))" using f(2) by (simp add: trunc_def)
  moreover have "trunc (rnd (d / c)) \<le> n" using f(2,3) by (simp add: trunc_def floor_le_iff) 
  ultimately show ?thesis by simp
qed

lemma pada_eq:
  assumes "0 \<le> d"
  shows "\<exists>v. fdiv (py_mod (Fin d) (int_truediv 360 27)) (int_truediv 360 108) = Fin v
           \<and> py_mod (py_mod (Fin d) (int_truediv 360 27)) (int_truediv 360 27)
               = py_mod (Fin d) (int_truediv 360 27)
           \<and> 0 \<le> v \<and> v \<le> 4 \<and> pada (Fin d) = Inr (\<lfloor>v\<rfloor> + 1)"
proof -
  define c where "c = int_truediv 360 27"
  define p where "p = int_truediv 360 108"
  define r where "r = exact_mod d c"
  have c: "0 < c" unfolding c_def by (rule nak_span_bounds)
  have p: "0 < p" "c / p = 4" unfolding c_def p_def by (rule span_ratio)+
  have r: "0 \<le> r" "r < c" unfolding r_def using c by (rule exact_mod_nonneg, rule exact_mod_less)
  have m1: "py_mod (Fin d) c = Fin r" unfolding r_def using assms c by (rule py_mod_nonneg_arg)
  have m2: "py_mod (Fin r) c = Fin r" using r by (rule py_mod_id)
  have q0: "0 \<le> r / p" using r(1) p(1) by simp
  have "r / p \<le> c / p" using r(2) p(1) by (simp add: divide_right_mono)
  then have q1: "r / p \<le> of_int 4" using p(2) by simp
  have "(4::int) < 2 ^ 53" by simp
  note f = fl_bounded [OF q0 q1 this]
  have "pada (Fin d) = Inr (trunc (rnd (r / p)) + 1)"
    unfolding pada_def c_def [symmetric] p_def [symmetric] m1 m2 using f(1) by simp
  then have "pada (Fin d) = Inr (\<lfloor>rnd (r / p)\<rfloor> + 1)" using f(2) by (simp add: trunc_def)
  moreover have "fdiv (py_mod (Fin d) c) p = Fin (rnd (r / p))" unfolding m1 using f(1) by simp
  moreover have "py_mod (py_mod (Fin d) c) c = py_mod (Fin d) c" unfolding m1 m2 ..
  ultimately show ?thesis using f(2,3) unfolding c_def p_def by auto
qed

lemma floor_int_bound:
  assumes "0 \<le> x" "x \<le> of_int n"
  shows "0 \<le> \<lfloor>x\<rfloor>" "\<lfloor>x\<rfloor> \<le> n"
  using assms by (simp_all add: floor_le_iff)

lemma frac_step:
  assumes "0 \<le> x" "x \<le> of_int n" "n < 2 ^ 53"
  shows "\<exists>f. fmul (fsub (Fin x) (float_of_int \<lfloor>x\<rfloor>)) 60 = Fin f \<and> 0 \<le> f \<and> f \<le> 60"
proof -
  define d where "d = \<lfloor>x\<rfloor>"
  have d: "0 \<le> d" "d \<le> n" unfolding d_def using assms(1,2) by (rule floor_int_bound)+
  then have "\<bar>d\<bar> < 2 ^ 53" using assms(3) by simp
  then have fd: "float_of_int d = Fin (of_int d)" unfolding float_of_int_def by (rule fl_int)
  have g0: "0 \<le> x - of_int d" "x - of_int d \<le> of_int 1" unfolding d_def by linarith+
  have "(1::int) < 2 ^ 53" by simp
  note f = fl_bounded [OF g0 this]
  define g where "g = rnd (x - of_int d)"
  have g: "0 \<le> g" "g \<le> 1" using f(2,3) by (simp_all add: g_def)
  have h0: "0 \<le> g * 60" "g * 60 \<le> of_int 60" using g by simp_all
  have "(60::int) < 2 ^ 53" by simp
  note h = fl_bounded [OF h0 this]
  have "fmul (fsub (Fin x) (float_of_int d)) 60 = Fin (rnd (g * 60))"
    by (simp add: fd fsub_Fin f(1) g_def [symmetric] h(1))
  then show ?thesis using h(2,3) unfolding d_def by auto
qed

lemma dms_eq:
  assumes "0 \<le> sd" "sd < 30"
  shows "\<exists>f1 f2.
           fmul (fsub (Fin sd) (float_of_int \<lfloor>sd\<rfloor>)) 60 = Fin f1 \<and> 0 \<le> f1
         \<and> fmul (fsub (Fin f1) (float_of_int \<lfloor>f1\<rfloor>)) 60 = Fin f2 \<and> 0 \<le> f2
         \<and> dms (Fin sd) = Inr (\<lfloor>sd\<rfloor>, \<lfloor>f1\<rfloor>, \<lfloor>f2\<rfloor>)"
proof -
  have "sd \<le> of_int 30" "(30::int) < 2 ^ 53" using assms(2) by simp_all
  from frac_step [OF assms(1) this] obtain f1
    where f1: "fmul (fsub (Fin sd) (float_of_int \<lfloor>sd\<rfloor>)) 60 = Fin f1" "0 \<le> f1" "f1 \<le> 60"
    by auto
  have "f1 \<le> of_int 60" "(60::int) < 2 ^ 53" using f1(3) by simp_all
  from frac_step [OF f1(2) this] obtain f2
    where f2: "fmul (fsub (Fin f1) (float_of_int \<lfloor>f1\<rfloor>)) 60 = Fin f2" "0 \<le> f2" "f2 \<le> 60"
    by auto
  have "dms (Fin sd) = Inr (\<lfloor>sd\<rfloor>, \<lfloor>f1\<rfloor>, \<lfloor>f2\<rfloor>)"
    using assms(1) f1(2) f2(2) by (simp add: dms_def trunc_def f1(1) f2(1))
  then show ?thesis using f1 f2 by auto
qed

lemma getitem_zodiac: "0 \<le> i \<Longrightarrow> i \<le> 11 \<Longrightarrow> py_getitem ZODIAC_SIGNS i = Inr (ZODIAC_SIGNS ! nat i)"
  by (simp add: py_getitem_def ZODIAC_SIGNS_def)

lemma getitem_nakshatra: "0 \<le> i \<Longrightarrow> i \<le> 26 \<Longrightarrow> py_getitem NAKSHATRAS i = Inr (NAKSHATRAS ! nat i)"
  by (simp add: py_getitem_def NAKSHATRAS_def)

lemma deg_to_zodiac_low:
  assumes "0 \<le> d" "d \<le> 346"
  shows "\<exists>k p. deg_to_zodiac (Fin d) =
            Inr (ZODIAC_SIGNS ! nat \<lfloor>d / 30\<rfloor>, NAKSHATRAS ! nat k, p, Fin (exact_mod d 30))
          \<and> 0 \<le> \<lfloor>d / 30\<rfloor> \<and> \<lfloor>d / 30\<rfloor> \<le> 11 \<and> 0 \<le> k \<and> k \<le> 26 \<and> 1 \<le> p \<and> p \<le> 5"
proof -
  have d360: "d < 360" "d \<le> 360" using assms(2) by simp_all
  have n: "normalize_deg (Fin d) = Fin d"
    using assms(1) d360(1) by (simp add: normalize_deg_nonneg_arg exact_mod_id)
  have z: "zodiac_index (Fin d) = Inr \<lfloor>d / 30\<rfloor>" using assms(1) d360(2) by (rule zodiac_index_eq)
  have z0: "0 \<le> \<lfloor>d / 30\<rfloor>" using assms(1) by simp
  have "d / 30 < 12" using d360(1) by simp
  then have "\<lfloor>d / 30\<rfloor> < 12" by (simp add: floor_less_iff)
  then have z1: "\<lfloor>d / 30\<rfloor> \<le> 11" by simp
  have "d \<le> of_int 26 * (40 / 3)" "(26::int) < 2 ^ 53" using assms(2) by simp_all
  from nak_index_bound [OF assms(1) d360(1) this] obtain k
    where k: "nak_index (Fin d) = Inr k" "0 \<le> k" "k \<le> 26" by auto
  from pada_eq [OF assms(1)] obtain v :: rat
    where v: "0 \<le> v" "v \<le> 4" "pada (Fin d) = Inr (\<lfloor>v\<rfloor> + 1)" by blast
  have v0: "0 \<le> \<lfloor>v\<rfloor>" using v(1) by simp
  have "v \<le> of_int 4" using v(2) by simp
  then have v1: "\<lfloor>v\<rfloor> \<le> 4" using v(1) floor_int_bound(2) by auto
  have s: "py_mod (Fin d) 30 = Fin (exact_mod d 30)" using assms(1) by (rule py_mod_nonneg_arg) simp
  have "deg_to_zodiac (Fin d) =
      Inr (ZODIAC_SIGNS ! nat \<lfloor>d / 30\<rfloor>, NAKSHATRAS ! nat k, \<lfloor>v\<rfloor> + 1, Fin (exact_mod d 30))"
    unfolding deg_to_zodiac_def n Let_def z k(1) v(3) s
    by (simp add: getitem_zodiac [OF z0 z1] getitem_nakshatra [OF k(2,3)])
  then show ?thesis using z0 z1 k(2,3) v0 v1 by auto
qed

lemma format_result_aries:
  assumes "0 \<le> x" "x < 30"
  shows "\<exists>t n p. format_result (Fin x) = Inr (t, ''Aries'', n, p)"
proof -
  have x346: "x \<le> 346" using assms(2) by simp
  have n: "normalize_deg (Fin x) = Fin x"
    using assms by (simp add: normalize_deg_nonneg_arg exact_mod_id)
  have "\<lfloor>x / 30\<rfloor> = 0" using assms by (intro floor_unique) simp_all
  then have a: "ZODIAC_SIGNS ! nat \<lfloor>x / 30\<rfloor> = ''Aries''" by (simp add: ZODIAC_SIGNS_def)
  have e: "exact_mod x 30 = x" using assms by (rule exact_mod_id)
  from deg_to_zodiac_low [OF assms(1) x346] obtain k p
    where dz: "deg_to_zodiac (Fin x) = Inr (''Aries'', NAKSHATRAS ! nat k, p, Fin x)"
    unfolding a e by auto
  from dms_eq [OF assms] obtain f1 f2 :: rat
    where "dms (Fin x) = Inr (\<lfloor>x\<rfloor>, \<lfloor>f1\<rfloor>, \<lfloor>f2\<rfloor>)" by blast
  then show ?thesis by (simp add: format_result_def n dz)
qed

subsection \<open>Evaluations at the boundaries\<close>

lemma trunc_eqI: "0 \<le> x \<Longrightarrow> of_int k \<le> x \<Longrightarrow> x < of_int k + 1 \<Longrightarrow> trunc x = k"
  by (simp add: trunc_def floor_unique)

lemma deg_to_zodiac_at_0:
  "deg_to_zodiac (Fin 0) = Inr (''Aries'', ''Ashwini'', 1, Fin 0)"
proof -
  have h1: "\<lfloor>0 :: rat\<rfloor> = 0"
    by (rule floor_unique) simp_all
  have h2: "zodiac_index (Fin 0) = Inr 0"
    using zodiac_index_eq [of "0"] by (simp add: h1)
  have h3: "exact_mod 0 30 = 0"
    using exact_mod_eqI [of "30" "0" 0] by simp
  have h4: "py_mod (Fin 0) 30 = Fin 0"
    using py_mod_nonneg_arg [of "0" 30] by (simp add: h3 del: py_mod.simps)
  have h5: "trunc 0 = 0"
    by (rule trunc_eqI) simp_all
  have h6: "nak_index (Fin 0) = Inr 0"
    using py_mod_id [of "0" 360] by (simp add: nak_index_def nak_span_value fl_zero h5 del: py_mod.simps)
  have h7: "exact_mod 0 (7505999378950827 / 562949953421312) = 0"
    using exact_mod_eqI [of "7505999378950827 / 562949953421312" "0" 0] by simp
  have h8: "py_mod (Fin 0) (int_truediv 360 27) = Fin 0"
    using py_mod_nonneg_arg [of "0" "7505999378950827 / 562949953421312"] by (simp add: nak_span_value h7 del: py_mod.simps)
  have h9: "py_mod (Fin 0) (int_truediv 360 27) = Fin 0"
    using py_mod_id [of "0" "7505999378950827 / 562949953421312"] by (simp add: nak_span_value del: py_mod.simps)
  have h10: "trunc 0 = 0"
    by (rule trunc_eqI) simp_all
  have h11: "pada (Fin 0) = Inr 1"
    unfolding pada_def h8 h9 by (simp add: pada_span_value fl_zero h10)
  have n: "normalize_deg (Fin 0) = Fin 0"
    by (simp add: normalize_deg_nonneg_arg exact_mod_id)
  show ?thesis unfolding deg_to_zodiac_def n Let_def h2 h4 h6 h11
    by (simp add: py_getitem_def ZODIAC_SIGNS_def NAKSHATRAS_def)
qed

lemma dms_at_0: "dms (Fin 0) = Inr (0, 0, 0)"
proof -
  have h1: "trunc 0 = 0"
    by (rule trunc_eqI) simp_all
  have h2: "trunc 0 = 0"
    by (rule trunc_eqI) simp_all
  have h3: "trunc 0 = 0"
    by (rule trunc_eqI) simp_all
  show ?thesis
    by (simp add: dms_def float_of_int_def fsub_Fin fl_zero fl_Ints h1 h2 h3)
qed

lemma format_result_at_0:
  "format_result (Fin 0) =
     Inr (''0'' @ degree_sign @ ''0'' @ prime_sign @ ''0'' @ double_prime_sign, ''Aries'', ''Ashwini'', 1)"
proof -
  have n: "normalize_deg (Fin 0) = Fin 0"
    by (simp add: normalize_deg_nonneg_arg exact_mod_id)
  have s0: "py_str 0 = ''0''" by code_simp
  show ?thesis unfolding format_result_def n Let_def
    by (simp add: deg_to_zodiac_at_0 dms_at_0 s0)
qed

lemma deg_to_zodiac_at_30:
  "deg_to_zodiac (Fin 30) = Inr (''Taurus'', ''Krittika'', 1, Fin 0)"
proof -
  have h1: "\<lfloor>1 :: rat\<rfloor> = 1"
    by (rule floor_unique) simp_all
  have h2: "zodiac_index (Fin 30) = Inr 1"
    using zodiac_index_eq [of "30"] by (simp add: h1)
  have h3: "exact_mod 30 30 = 0"
    using exact_mod_eqI [of "30" "30" 1] by simp
  have h4: "py_mod (Fin 30) 30 = Fin 0"
    using py_mod_nonneg_arg [of "30" 30] by (simp add: h3 del: py_mod.simps)
  have h5: "fl (5629499534213120 / 2501999792983609) = Fin (9 / 4)"
    using rnd_eqI [of "1" "5629499534213120 / 2501999792983609" 5066549580791808] by (simp add: fl_def)
  have h6: "trunc (9 / 4) = 2"
    by (rule trunc_eqI) simp_all
  have h7: "nak_index (Fin 30) = Inr 2"
    using py_mod_id [of "30" 360] by (simp add: nak_index_def nak_span_value h5 h6 del: py_mod.simps)
  have h8: "exact_mod 30 (7505999378950827 / 562949953421312) = 938249922368853 / 281474976710656"
    using exact_mod_eqI [of "7505999378950827 / 562949953421312" "30" 2] by simp
  have h9: "py_mod (Fin 30) (int_truediv 360 27) = Fin (938249922368853 / 281474976710656)"
    using py_mod_nonneg_arg [of "30" "7505999378950827 / 562949953421312"] by (simp add: nak_span_value h8 del: py_mod.simps)
  have h10: "py_mod (Fin (938249922368853 / 281474976710656)) (int_truediv 360 27) = Fin (938249922368853 / 281474976710656)"
    using py_mod_id [of "938249922368853 / 281474976710656" "7505999378950827 / 562949953421312"] by (simp add: nak_span_value del: py_mod.simps)
  have h11: "fl (2501999792983608 / 2501999792983609) = Fin (2251799813685247 / 2251799813685248)"
    using rnd_eqI [of "- 1" "2501999792983608 / 2501999792983609" 9007199254740988] by (simp add: fl_def)
  have h12: "trunc (2251799813685247 / 2251799813685248) = 0"
    by (rule trunc_eqI) simp_all
  have h13: "pada (Fin 30) = Inr 1"
    unfolding pada_def h9 h10 by (simp add: pada_span_value h11 h12)
  have n: "normalize_deg (Fin 30) = Fin 30"
    by (simp add: normalize_deg_nonneg_arg exact_mod_id)
  show ?thesis unfolding deg_to_zodiac_def n Let_def h2 h4 h7 h13
    by (simp add: py_getitem_def ZODIAC_SIGNS_def NAKSHATRAS_def)
qed

lemma format_result_at_30:
  "format_result (Fin 30) =
     Inr (''0'' @ degree_sign @ ''0'' @ prime_sign @ ''0'' @ double_prime_sign, ''Taurus'', ''Krittika'', 1)"
proof -
  have n: "normalize_deg (Fin 30) = Fin 30"
    by (simp add: normalize_deg_nonneg_arg exact_mod_id)
  have s0: "py_str 0 = ''0''" by code_simp
  show ?thesis unfolding format_result_def n Let_def
    by (simp add: deg_to_zodiac_at_30 dms_at_0 s0)
qed

lemma deg_to_zodiac_at_nak_span:
  "deg_to_zodiac (Fin (7505999378950827 / 562949953421312)) = Inr (''Aries'', ''Bharani'', 1, Fin (7505999378950827 / 562949953421312))"
proof -
  have h1: "\<lfloor>2501999792983609 / 5629499534213120 :: rat\<rfloor> = 0"
    by (rule floor_unique) simp_all
  have h2: "zodiac_index (Fin (7505999378950827 / 562949953421312)) = Inr 0"
    using zodiac_index_eq [of "7505999378950827 / 562949953421312"] by (simp add: h1)
  have h3: "exact_mod (7505999378950827 / 562949953421312) 30 = 7505999378950827 / 562949953421312"
    using exact_mod_eqI [of "30" "7505999378950827 / 562949953421312" 0] by simp
  have h4: "py_mod (Fin (7505999378950827 / 562949953421312)) 30 = Fin (7505999378950827 / 562949953421312)"
    using py_mod_nonneg_arg [of "7505999378950827 / 562949953421312" 30] by (simp add: h3 del: py_mod.simps)
  have h5: "fl 1 = Fin 1"
    using rnd_eqI [of "0" "1" 4503599627370496] by (simp add: fl_def)
  have h6: "trunc 1 = 1"
    by (rule trunc_eqI) simp_all
  have h7: "nak_index (Fin (7505999378950827 / 562949953421312)) = Inr 1"
    using py_mod_id [of "7505999378950827 / 562949953421312" 360] by (simp add: nak_index_def nak_span_value h5 h6 del: py_mod.simps)
  have h8: "exact_mod (7505999378950827 / 562949953421312) (7505999378950827 / 562949953421312) = 0"
    using exact_mod_eqI [of "7505999378950827 / 562949953421312" "7505999378950827 / 562949953421312" 1] by simp
  have h9: "py_mod (Fin (7505999378950827 / 562949953421312)) (int_truediv 360 27) = Fin 0"
    using py_mod_nonneg_arg [of "7505999378950827 / 562949953421312" "7505999378950827 / 562949953421312"] by (simp add: nak_span_value h8 del: py_mod.simps)
  have h10: "py_mod (Fin 0) (int_truediv 360 27) = Fin 0"
    using py_mod_id [of "0" "7505999378950827 / 562949953421312"] by (simp add: nak_span_value del: py_mod.simps)
  have h11: "trunc 0 = 0"
    by (rule trunc_eqI) simp_all
  have h12: "pada (Fin (7505999378950827 / 562949953421312)) = Inr 1"
    unfolding pada_def h9 h10 by (simp add: pada_span_value fl_zero h11)
  have n: "normalize_deg (Fin (7505999378950827 / 562949953421312)) = Fin (7505999378950827 / 562949953421312)"
    by (simp add: normalize_deg_nonneg_arg exact_mod_id)
  show ?thesis unfolding deg_to_zodiac_def n Let_def h2 h4 h7 h12
    by (simp add: py_getitem_def ZODIAC_SIGNS_def NAKSHATRAS_def)
qed

lemma dms_at_nak_span: "dms (Fin (7505999378950827 / 562949953421312)) = Inr (13, 20, 0)"
proof -
  have h1: "trunc (7505999378950827 / 562949953421312) = 13"
    by (rule trunc_eqI) simp_all
  have h2: "fl (187649984473771 / 562949953421312) = Fin (187649984473771 / 562949953421312)"
    using rnd_eqI [of "- 2" "187649984473771 / 562949953421312" 6004799503160672] by (simp add: fl_def)
  have h3: "fl (2814749767106565 / 140737488355328) = Fin (2814749767106565 / 140737488355328)"
    using rnd_eqI [of "4" "2814749767106565 / 140737488355328" 5629499534213130] by (simp add: fl_def)
  have h4: "trunc (2814749767106565 / 140737488355328) = 20"
    by (rule trunc_eqI) simp_all
  have h5: "fl (5 / 140737488355328) = Fin (5 / 140737488355328)"
    using rnd_eqI [of "- 45" "5 / 140737488355328" 5629499534213120] by (simp add: fl_def)
  have h6: "fl (75 / 35184372088832) = Fin (75 / 35184372088832)"
    using rnd_eqI [of "- 39" "75 / 35184372088832" 5277655813324800] by (simp add: fl_def)
  have h7: "trunc (75 / 35184372088832) = 0"
    by (rule trunc_eqI) simp_all
  show ?thesis
    by (simp add: dms_def float_of_int_def fsub_Fin fl_zero fl_Ints h1 h2 h3 h4 h5 h6 h7)
qed

lemma format_result_at_nak_span:
  "format_result (Fin (int_truediv 360 27)) =
     Inr (''13'' @ degree_sign @ ''20'' @ prime_sign @ ''0'' @ double_prime_sign, ''Aries'', ''Bharani'', 1)"
proof -
  have a: "Fin (int_truediv 360 27) = Fin (7505999378950827 / 562949953421312)" by (simp add: nak_span_value)
  have n: "normalize_deg (Fin (7505999378950827 / 562949953421312)) = Fin (7505999378950827 / 562949953421312)"
    by (simp add: normalize_deg_nonneg_arg exact_mod_id)
  have s0: "py_str 0 = ''0''" by code_simp
  have s13: "py_str 13 = ''13''" by code_simp
  have s20: "py_str 20 = ''20''" by code_simp
  show ?thesis unfolding a format_result_def n Let_def
    by (simp add: deg_to_zodiac_at_nak_span dms_at_nak_span s0 s13 s20)
qed




subsection \<open>Avayoga\<close>

lemma rnd_near_360:
  assumes "\<bar>e\<bar> \<le> 1 / 2 ^ 45"
  shows "rnd (360 + e) = 360"
proof -
  have b: "- (1 / 2 ^ 45) \<le> e" "e \<le> 1 / 2 ^ 45" using assms by (simp_all add: abs_le_iff)
  have 1: "2 powi 8 \<le> \<bar>360 + e\<bar>" using b by simp
  have 2: "\<bar>360 + e\<bar> < 2 powi (8 + 1)" using b by simp
  have "(360 + e) / 2 powi (max (8 - 52) (- 1074)) - of_int 6333186975989760 = e * 2 ^ 44"
    by (simp add: field_simps)
  moreover have "\<bar>e * 2 ^ 44\<bar> \<le> 1 / 2" using b by (simp add: abs_le_iff)
  ultimately have 3: "\<bar>(360 + e) / 2 powi (max (8 - 52) (- 1074)) - of_int 6333186975989760\<bar> \<le> 1 / 2"
    by (simp only:)
  have "rnd (360 + e) = of_int 6333186975989760 * 2 powi (max (8 - 52) (- 1074))"
    using 1 2 3 by (rule rnd_tieI) simp
  then show ?thesis by simp
qed

lemma quantum_le:
  assumes "y \<noteq> 0" "\<bar>y\<bar> < 2 powi k" "- 1021 \<le> k"
  shows "quantum y \<le> 2 powi (k - 53)"
  unfolding quantum_def using qexp_le [OF assms] by (intro power_int_increasing) simp_all

lemma complement_sum:
  assumes "0 \<le> m" "m \<le> 360"
  shows "\<exists>d. fsub (Fin 360) (Fin m) = Fin d \<and> 0 \<le> d \<and> d \<le> 360
           \<and> fadd (Fin d) (Fin m) = Fin 360 \<and> (m = 0 \<longrightarrow> d = 360)"
proof -
  define y where "y = 360 - m"
  define d where "d = rnd y"
  have y: "0 \<le> y" "y \<le> of_int 360" using assms by (simp_all add: y_def)
  have "(360::int) < 2 ^ 53" by simp
  note f = fl_bounded [OF y this]
  have s: "fsub (Fin 360) (Fin m) = Fin d" using f(1) by (simp add: fsub_Fin y_def d_def)
  have d: "0 \<le> d" "d \<le> 360" using f(2,3) by (simp_all add: d_def)
  have err: "\<bar>d - y\<bar> \<le> 1 / 2 ^ 45"
  proof (cases "y = 0")
    case True
    then show ?thesis by (simp add: d_def rnd_def)
  next
    case False
    have "\<bar>y\<bar> < 2 powi 9" using y by simp
    then have "quantum y \<le> 2 powi (9 - 53)" using False by (intro quantum_le) simp_all
    then have "quantum y / 2 \<le> 1 / 2 ^ 45" by simp
    with rnd_error [of y] show ?thesis unfolding d_def by (rule order_trans)
  qed
  have e: "d + m = 360 + (d - y)" by (simp add: y_def)
  have "rnd (d + m) = 360" unfolding e using err by (rule rnd_near_360)
  then have a: "fadd (Fin d) (Fin m) = Fin 360" by (simp add: fl_def)
  have "d = 360" if "m = 0"
    using that rnd_int [of 360] by (simp add: d_def y_def)
  with s d a show ?thesis by blast
qed

lemma normalize_deg_Fin:
  "\<exists>r. normalize_deg (Fin x) = Fin r \<and> 0 \<le> r \<and> r \<le> 360"
  using normalize_deg_cases [of "Fin x"]
proof
  assume "normalize_deg (Fin x) = NaN"
  moreover have "normalize_deg (Fin x) \<noteq> NaN"
  proof (cases "0 \<le> x")
    case True
    then show ?thesis by (simp add: normalize_deg_nonneg_arg)
  next
    case False
    then have "x < 0" by simp
    from normalize_deg_neg_arg(1) [OF this] show ?thesis by simp
  qed
  ultimately show ?thesis by simp
qed

lemma format_result_cong:
  "normalize_deg x = normalize_deg y \<Longrightarrow> format_result x = format_result y"
  by (simp add: format_result_def)

lemma format_result_at_360:
  "format_result (Fin 360) =
     Inr (''0'' @ degree_sign @ ''0'' @ prime_sign @ ''0'' @ double_prime_sign, ''Aries'', ''Ashwini'', 1)"
proof -
  have "exact_mod 360 360 = 0" using exact_mod_eqI [of 360 360 1] by simp
  then have "normalize_deg (Fin 360) = normalize_deg (Fin 0)"
    by (simp add: normalize_deg_nonneg_arg exact_mod_id)
  then have "format_result (Fin 360) = format_result (Fin 0)" by (rule format_result_cong)
  then show ?thesis by (simp only: format_result_at_0)
qed

text \<open>
  C3, as amended. For every \<open>sun\<close> and \<open>moon\<close> whose float sum is finite, let \<open>m\<close> be
  \<open>(sun + moon) % 360\<close> and \<open>d\<close> the degree \<open>360 - m\<close> that \<open>calc_avayoga_sphuta\<close> formats.
  Both lie in [0,360], the float sum \<open>d + m\<close> is exactly 360, and the result of
  \<open>calc_avayoga_sphuta\<close> is \<open>format_result d\<close>. When \<open>m\<close> is 0, \<open>d\<close> is 360 and the
  formatted result is the one of 0 degrees: DMS string 0, 0, 0, sign Aries, nakshatra
  Ashwini, pada 1.
\<close>

theorem avayoga_complement:
  "fadd sun moon = Fin t \<longrightarrow>
     (\<exists>m d. py_mod (fadd sun moon) 360 = Fin m \<and> 0 \<le> m \<and> m \<le> 360
        \<and> avayoga_deg sun moon = Fin d \<and> 0 \<le> d \<and> d \<le> 360
        \<and> fadd (Fin d) (Fin m) = Fin 360
        \<and> calc_avayoga_sphuta sun moon = format_result (Fin d)
        \<and> (m = 0 \<longrightarrow> d = 360 \<and> calc_avayoga_sphuta sun moon =
              Inr (''0'' @ degree_sign @ ''0'' @ prime_sign @ ''0'' @ double_prime_sign,
                   ''Aries'', ''Ashwini'', 1)))"
proof
  assume t: "fadd sun moon = Fin t"
  from normalize_deg_Fin [of t] obtain m :: rat
    where m: "py_mod (Fin t) 360 = Fin m" "0 \<le> m" "m \<le> 360"
    unfolding normalize_deg_def by blast
  from complement_sum [OF m(2,3)] obtain d :: rat
    where d: "fsub (Fin 360) (Fin m) = Fin d" "0 \<le> d" "d \<le> 360"
      "fadd (Fin d) (Fin m) = Fin 360" "m = 0 \<longrightarrow> d = 360"
    by blast
  have a: "avayoga_deg sun moon = Fin d" by (simp only: avayoga_deg_def t m(1) d(1))
  have c: "calc_avayoga_sphuta sun moon = format_result (Fin d)"
    by (simp only: calc_avayoga_sphuta_def a)
  have "calc_avayoga_sphuta sun moon =
      Inr (''0'' @ degree_sign @ ''0'' @ prime_sign @ ''0'' @ double_prime_sign, ''Aries'', ''Ashwini'', 1)"
    if "m = 0"
    using that d(5) c by (simp only: format_result_at_360)
  with m d a c show "\<exists>m d. py_mod (fadd sun moon) 360 = Fin m \<and> 0 \<le> m \<and> m \<le> 360
        \<and> avayoga_deg sun moon = Fin d \<and> 0 \<le> d \<and> d \<le> 360
        \<and> fadd (Fin d) (Fin m) = Fin 360
        \<and> calc_avayoga_sphuta sun moon = format_result (Fin d)
        \<and> (m = 0 \<longrightarrow> d = 360 \<and> calc_avayoga_sphuta sun moon =
              Inr (''0'' @ degree_sign @ ''0'' @ prime_sign @ ''0'' @ double_prime_sign,
                   ''Aries'', ''Ashwini'', 1))"
    unfolding t by blast
qed

lemma fl_overflow: "fl (2 ^ 1023 + 2 ^ 1023) = PInf"
proof -
  have "(2::rat) ^ 1023 + 2 ^ 1023 = 2 ^ 1024" by simp
  moreover have "rnd (2 ^ 1024) = 2 ^ 1024"
    by (rule rnd_grid [where m = 1 and j = 1024 and k = 1025]) simp_all
  ultimately show ?thesis by (simp add: fl_def)
qed

text \<open>
  The claim as first stated, for every \<open>sun\<close> and \<open>moon\<close>, fails where the sum overflows:
  at \<open>sun = moon = 2^1023\<close> the sum is infinite, its remainder is NaN, the degree is NaN,
  nothing sums to 360, and \<open>int\<close> raises ValueError.
\<close>

theorem avayoga_complement_counterexample:
  "fadd (Fin (2 ^ 1023)) (Fin (2 ^ 1023)) = PInf
   \<and> py_mod (fadd (Fin (2 ^ 1023)) (Fin (2 ^ 1023))) 360 = NaN
   \<and> avayoga_deg (Fin (2 ^ 1023)) (Fin (2 ^ 1023)) = NaN
   \<and> fadd (avayoga_deg (Fin (2 ^ 1023)) (Fin (2 ^ 1023)))
          (py_mod (fadd (Fin (2 ^ 1023)) (Fin (2 ^ 1023))) 360) \<noteq> Fin 360
   \<and> calc_avayoga_sphuta (Fin (2 ^ 1023)) (Fin (2 ^ 1023)) = Inl ValueError"
proof -
  have s: "fadd (Fin (2 ^ 1023)) (Fin (2 ^ 1023)) = PInf"
    using fl_overflow by simp
  have a: "avayoga_deg (Fin (2 ^ 1023)) (Fin (2 ^ 1023)) = NaN"
    unfolding avayoga_deg_def s by (simp add: fsub_def)
  have "calc_avayoga_sphuta (Fin (2 ^ 1023)) (Fin (2 ^ 1023)) = Inl ValueError"
    unfolding calc_avayoga_sphuta_def a
    by (simp add: format_result_def deg_to_zodiac_def normalize_deg_def zodiac_index_def)
  then show ?thesis unfolding a s by simp
qed

theorem avayoga_complement_witness:
  "fadd (Fin 100) (Fin 260) = Fin 360
   \<and> py_mod (fadd (Fin 100) (Fin 260)) 360 = Fin 0
   \<and> avayoga_deg (Fin 100) (Fin 260) = Fin 360
   \<and> calc_avayoga_sphuta (Fin 100) (Fin 260) =
       Inr (''0'' @ degree_sign @ ''0'' @ prime_sign @ ''0'' @ double_prime_sign,
            ''Aries'', ''Ashwini'', 1)"
proof -
  have h: "fadd (Fin 100) (Fin 260) = Fin 360" by (simp add: fl_Ints)
  have "exact_mod 360 360 = 0" using exact_mod_eqI [of 360 360 1] by simp
  then have m: "py_mod (fadd (Fin 100) (Fin 260)) 360 = Fin 0"
    unfolding h using py_mod_nonneg_arg [of 360 360] by (simp del: py_mod.simps)
  from avayoga_complement [of "Fin 100" "Fin 260" 360] h m show ?thesis
    by (auto simp del: py_mod.simps fadd.simps)
qed

subsection \<open>Gulika and Mandi\<close>

lemma weekday_cases: "0 \<le> w \<Longrightarrow> w \<le> 6 \<Longrightarrow> w \<in> {0, 1, 2, 3, 4, 5, 6::int}"
  by auto

lemma gulika_lookup:
  "py_dict_getitem gulika_portions w =
     (if 0 \<le> w \<and> w \<le> 6 then Inr (7 - w) else Inl (KeyError w))"
proof (cases "0 \<le> w \<and> w \<le> 6")
  case True
  then have "w \<in> {0, 1, 2, 3, 4, 5, 6}" by auto
  then show ?thesis by (auto simp: py_dict_getitem_def gulika_portions_def)
next
  case False
  then show ?thesis by (auto simp: py_dict_getitem_def gulika_portions_def)
qed

lemma mandi_lookup:
  "py_dict_getitem mandi_portions w =
     (if 0 \<le> w \<and> w \<le> 6 then Inr (6 - w) else Inl (KeyError w))"
proof (cases "0 \<le> w \<and> w \<le> 6")
  case True
  then have "w \<in> {0, 1, 2, 3, 4, 5, 6}" by auto
  then show ?thesis by (auto simp: py_dict_getitem_def mandi_portions_def)
next
  case False
  then show ?thesis by (auto simp: py_dict_getitem_def mandi_portions_def)
qed

lemma spec_gulika_portion_eq: "0 \<le> w \<Longrightarrow> w \<le> 6 \<Longrightarrow> spec_gulika_portion w = 7 - w"
  using weekday_cases [of w] by (auto simp: spec_gulika_portion_def)

lemma spec_mandi_portion_eq: "0 \<le> w \<Longrightarrow> w \<le> 6 \<Longrightarrow> spec_mandi_portion w = 6 - w"
  using weekday_cases [of w] by (auto simp: spec_mandi_portion_def)

text \<open>The offset in degrees of a portion count between 0 and 7 is 22.5 times the count, exactly.\<close>

lemma portion_offset:
  assumes "0 \<le> p" "p \<le> 7"
  shows "fdiv (fmul (float_of_int p) (int_truediv 720 8)) 4 = Fin (of_int p * (45 / 2))"
proof -
  have b: "\<bar>p\<bar> < 2 ^ 53" "\<bar>p * 90\<bar> < 2 ^ 53" "\<bar>p * 45\<bar> < 2 ^ 53" using assms by simp_all
  have 1: "float_of_int p = Fin (of_int p)" unfolding float_of_int_def using b(1) by (rule fl_int)
  have "fl (of_int (p * 90)) = Fin (of_int (p * 90))" using b(2) by (rule fl_int)
  then have 2: "fmul (Fin (of_int p)) (int_truediv 720 8) = Fin (of_int p * 90)"
    by (simp add: day_portion_value)
  have e3: "of_int p * 90 / 4 = (of_int (p * 45) / 2 :: rat)" by simp
  have "fdiv (Fin (of_int p * 90)) 4 = fl (of_int p * 90 / 4)" by simp
  also have "\<dots> = fl (of_int (p * 45) / 2)" by (simp only: e3)
  also have "\<dots> = Fin (of_int (p * 45) / 2)" using b(3) by (rule fl_half)
  also have "\<dots> = Fin (of_int p * (45 / 2))" by simp
  finally have 3: "fdiv (Fin (of_int p * 90)) 4 = Fin (of_int p * (45 / 2))" .
  show ?thesis by (simp only: 1 2 3)
qed

lemma calc_gulika_eq:
  assumes "0 \<le> w" "w \<le> 6"
  shows "calc_gulika w s = Inr (normalize_deg (fadd s (Fin (of_int (7 - w) * (45 / 2)))))"
proof -
  have "0 \<le> 7 - w" "7 - w \<le> 7" using assms by simp_all
  from portion_offset [OF this] show ?thesis
    using assms by (simp add: calc_gulika_def gulika_lookup)
qed


text \<open>
  C5. For every weekday \<open>w\<close> from 0 to 6 and every sunrise degree \<open>s\<close>, \<open>calc_gulika\<close>
  returns \<open>normalize_deg (s + portion w * (720/8) / 4)\<close> with the portions 7, 6, 5, 4, 3,
  2, 1 for the weekdays 0 to 6, and \<open>calc_mandi\<close> the same with the portions 6, 5, 4, 3,
  2, 1, 0, where \<open>720/8\<close> is 90. In particular \<open>calc_gulika 0 90\<close> is 247.5.
\<close>

theorem temporal_formula:
  "(\<forall>w s. 0 \<le> w \<and> w \<le> 6 \<longrightarrow>
       calc_gulika w s =
         Inr (normalize_deg (fadd s (fdiv (fmul (float_of_int (spec_gulika_portion w)) (int_truediv 720 8)) 4)))
     \<and> calc_mandi w s =
         Inr (normalize_deg (fadd s (fdiv (fmul (float_of_int (spec_mandi_portion w)) (int_truediv 720 8)) 4))))
   \<and> map spec_gulika_portion [0, 1, 2, 3, 4, 5, 6] = [7, 6, 5, 4, 3, 2, 1]
   \<and> map spec_mandi_portion [0, 1, 2, 3, 4, 5, 6] = [6, 5, 4, 3, 2, 1, 0]
   \<and> int_truediv 720 8 = 90
   \<and> calc_gulika 0 (Fin 90) = Inr (Fin (495 / 2))"
proof -
  have "calc_gulika 0 (Fin 90) = Inr (normalize_deg (fadd (Fin 90) (Fin (of_int (7 - 0) * (45 / 2)))))"
    by (rule calc_gulika_eq) simp_all
  moreover have "fadd (Fin 90) (Fin (of_int (7 - 0) * (45 / 2))) = Fin (495 / 2)"
    by (simp add: fl_halves)
  moreover have "normalize_deg (Fin (495 / 2)) = Fin (495 / 2)"
    by (simp add: normalize_deg_nonneg_arg exact_mod_id)
  ultimately have g: "calc_gulika 0 (Fin 90) = Inr (Fin (495 / 2))" by (simp only:)
  have t: "map spec_gulika_portion [0, 1, 2, 3, 4, 5, 6] = [7, 6, 5, 4, 3, 2, 1]"
    "map spec_mandi_portion [0, 1, 2, 3, 4, 5, 6] = [6, 5, 4, 3, 2, 1, 0]"
    by (simp_all add: spec_gulika_portion_def spec_mandi_portion_def)
  show ?thesis
    using g t day_portion_value
    by (simp add: calc_gulika_def calc_mandi_def gulika_lookup mandi_lookup
        spec_gulika_portion_eq spec_mandi_portion_eq)
qed

theorem temporal_formula_witness:
  "(0::int) \<le> 3 \<and> (3::int) \<le> 6
   \<and> calc_gulika 3 (Fin 350) = Inr (Fin 80) \<and> calc_mandi 3 (Fin 350) = Inr (Fin (115 / 2))"
proof -
  have h: "(0::int) \<le> 3 \<and> (3::int) \<le> 6" by simp
  have p: "spec_gulika_portion 3 = 4" "spec_mandi_portion 3 = 3"
    by (simp_all add: spec_gulika_portion_def spec_mandi_portion_def)
  have o: "fdiv (fmul (float_of_int 4) (int_truediv 720 8)) 4 = Fin 90"
    "fdiv (fmul (float_of_int 3) (int_truediv 720 8)) 4 = Fin (135 / 2)"
    using portion_offset [of 4] portion_offset [of 3] by simp_all
  have a: "fadd (Fin 350) (Fin 90) = Fin 440" "fadd (Fin 350) (Fin (135 / 2)) = Fin (835 / 2)"
    by (simp_all add: fl_halves fl_Ints)
  have "exact_mod 440 360 = 80" using exact_mod_eqI [of 360 440 1] by simp
  then have n1: "normalize_deg (Fin 440) = Fin 80" by (simp add: normalize_deg_nonneg_arg)
  have "exact_mod (835 / 2) 360 = 115 / 2" using exact_mod_eqI [of 360 "835 / 2" 1] by simp
  then have n2: "normalize_deg (Fin (835 / 2)) = Fin (115 / 2)" by (simp add: normalize_deg_nonneg_arg)
  have "calc_gulika 3 (Fin 350) =
         Inr (normalize_deg (fadd (Fin 350) (fdiv (fmul (float_of_int (spec_gulika_portion 3)) (int_truediv 720 8)) 4)))
     \<and> calc_mandi 3 (Fin 350) =
         Inr (normalize_deg (fadd (Fin 350) (fdiv (fmul (float_of_int (spec_mandi_portion 3)) (int_truediv 720 8)) 4)))"
    using h temporal_formula by blast
  then show ?thesis unfolding p o a n1 n2 by simp
qed

text \<open>
  C6. \<open>calc_gulika\<close> and \<open>calc_mandi\<close> fail exactly when the weekday is below 0 or above
  6, and the failure is the KeyError of the missing table entry; for every weekday from
  0 to 6 both return a degree.
\<close>

theorem weekday_error:
  "((\<exists>e. calc_gulika w s = Inl e) \<longleftrightarrow> w < 0 \<or> 6 < w)
   \<and> ((\<exists>e. calc_mandi w s = Inl e) \<longleftrightarrow> w < 0 \<or> 6 < w)
   \<and> (w < 0 \<or> 6 < w \<longrightarrow> calc_gulika w s = Inl (KeyError w) \<and> calc_mandi w s = Inl (KeyError w))
   \<and> (0 \<le> w \<and> w \<le> 6 \<longrightarrow> (\<exists>g m. calc_gulika w s = Inr g \<and> calc_mandi w s = Inr m))"
  by (auto simp: calc_gulika_def calc_mandi_def gulika_lookup mandi_lookup)

theorem weekday_error_witness:
  "calc_gulika 7 (Fin 90) = Inl (KeyError 7) \<and> calc_mandi 7 (Fin 90) = Inl (KeyError 7)
   \<and> calc_gulika (- 1) (Fin 90) = Inl (KeyError (- 1))
   \<and> (\<exists>g m. calc_gulika 6 (Fin 90) = Inr g \<and> calc_mandi 6 (Fin 90) = Inr m)"
  using weekday_error [of 7 "Fin 90"] weekday_error [of "- 1" "Fin 90"] weekday_error [of 6 "Fin 90"]
  by simp

text \<open>
  C7. For every \<open>sun\<close> and \<open>moon\<close>, \<open>calc_yoga_sphuta\<close> and \<open>calc_tithi_sphuta\<close> return
  the same formatted result: both format \<open>sun + moon\<close>.
\<close>

theorem yoga_eq_tithi: "calc_yoga_sphuta sun moon = calc_tithi_sphuta sun moon"
  by (simp add: calc_yoga_sphuta_def calc_tithi_sphuta_def)








subsection \<open>Pada, DMS fields and the decoder's totality\<close>

lemma pada_noop_nonneg:
  assumes "0 \<le> d"
  shows "py_mod (py_mod (Fin d) nakSpan) nakSpan = py_mod (Fin d) nakSpan"
    "pada (Fin d) = pada_double (Fin d)" "pada_double (Fin d) = pada_single (Fin d)"
proof -
  from pada_eq [OF assms] obtain v :: rat
    where v: "fdiv (py_mod (Fin d) (int_truediv 360 27)) (int_truediv 360 108) = Fin v"
      "py_mod (py_mod (Fin d) (int_truediv 360 27)) (int_truediv 360 27)
         = py_mod (Fin d) (int_truediv 360 27)"
      "pada (Fin d) = Inr (\<lfloor>v\<rfloor> + 1)"
    by blast
  show "py_mod (py_mod (Fin d) nakSpan) nakSpan = py_mod (Fin d) nakSpan"
    unfolding nakSpan_def by (rule v(2))
  have s: "pada_single (Fin d) = Inr (\<lfloor>v\<rfloor> + 1)"
    unfolding pada_single_def nakSpan_def padaSpan_def v(1) by simp
  have d: "pada_double (Fin d) = Inr (\<lfloor>v\<rfloor> + 1)"
    unfolding pada_double_def nakSpan_def padaSpan_def v(2) v(1) by simp
  show "pada (Fin d) = pada_double (Fin d)" by (simp only: v(3) d)
  show "pada_double (Fin d) = pada_single (Fin d)" by (simp only: s d)
qed

text \<open>
  C8. For every degree that \<open>deg_to_zodiac\<close> computes the pada of, which is a normalized
  degree, the modulo by the nakshatra span applied a second time changes nothing, and the
  pada with the double modulo, \<open>floor (((degree % nakSpan) % nakSpan) / padaSpan) + 1\<close>,
  equals the pada with a single modulo, \<open>floor ((degree % nakSpan) / padaSpan) + 1\<close>, where
  \<open>nakSpan = 360/27\<close> and \<open>padaSpan = 360/108\<close>. The pada of the code, which truncates with
  \<open>int\<close>, is this same number, and all three fail alike on NaN.
\<close>

theorem pada_double_modulo_noop:
  "py_mod (py_mod (normalize_deg x) nakSpan) nakSpan = py_mod (normalize_deg x) nakSpan
   \<and> pada (normalize_deg x) = pada_double (normalize_deg x)
   \<and> pada_double (normalize_deg x) = pada_single (normalize_deg x)"
  using normalize_deg_cases [of x]
proof
  assume "normalize_deg x = NaN"
  then show ?thesis by (simp add: pada_def pada_double_def pada_single_def)
next
  assume "\<exists>r. normalize_deg x = Fin r \<and> 0 \<le> r \<and> r \<le> 360"
  then obtain r where r: "normalize_deg x = Fin r" "0 \<le> r" by blast
  show ?thesis unfolding r(1) using pada_noop_nonneg [OF r(2)] by (simp only:)
qed

theorem pada_double_modulo_noop_witness:
  "normalize_deg (Fin 100) = Fin 100 \<and> pada (Fin 100) = Inr 2 \<and> pada_single (Fin 100) = Inr 2"
proof -
  have h1: "\<lfloor>10 / 3 :: rat\<rfloor> = 3"
    by (rule floor_unique) simp_all
  have h2: "zodiac_index (Fin 100) = Inr 3"
    using zodiac_index_eq [of "100"] by (simp add: h1)
  have h3: "exact_mod 100 30 = 10"
    using exact_mod_eqI [of "30" "100" 3] by simp
  have h4: "py_mod (Fin 100) 30 = Fin 10"
    using py_mod_nonneg_arg [of "100" 30] by (simp add: h3 del: py_mod.simps)
  have h5: "fl (56294995342131200 / 7505999378950827) = Fin (15 / 2)"
    using rnd_eqI [of "2" "56294995342131200 / 7505999378950827" 8444249301319680] by (simp add: fl_def)
  have h6: "trunc (15 / 2) = 7"
    by (rule trunc_eqI) simp_all
  have h7: "nak_index (Fin 100) = Inr 7"
    using py_mod_id [of "100" 360] by (simp add: nak_index_def nak_span_value h5 h6 del: py_mod.simps)
  have h8: "exact_mod 100 (7505999378950827 / 562949953421312) = 3752999689475411 / 562949953421312"
    using exact_mod_eqI [of "7505999378950827 / 562949953421312" "100" 7] by simp
  have h9: "py_mod (Fin 100) (int_truediv 360 27) = Fin (3752999689475411 / 562949953421312)"
    using py_mod_nonneg_arg [of "100" "7505999378950827 / 562949953421312"] by (simp add: nak_span_value h8 del: py_mod.simps)
  have h10: "py_mod (Fin (3752999689475411 / 562949953421312)) (int_truediv 360 27) = Fin (3752999689475411 / 562949953421312)"
    using py_mod_id [of "3752999689475411 / 562949953421312" "7505999378950827 / 562949953421312"] by (simp add: nak_span_value del: py_mod.simps)
  have h11: "fl (15011998757901644 / 7505999378950827) = Fin (4503599627370493 / 2251799813685248)"
    using rnd_eqI [of "0" "15011998757901644 / 7505999378950827" 9007199254740986] by (simp add: fl_def)
  have h12: "trunc (4503599627370493 / 2251799813685248) = 1"
    by (rule trunc_eqI) simp_all
  have h13: "pada (Fin 100) = Inr 2"
    unfolding pada_def h9 h10 by (simp add: pada_span_value h11 h12)
  have n: "normalize_deg (Fin 100) = Fin 100"
    by (simp add: normalize_deg_nonneg_arg exact_mod_id)
  from pada_double_modulo_noop [of "Fin 100"] show ?thesis unfolding n using h13 by simp
qed






text \<open>
  C4. Degree 0 formats to DMS string 0, 0, 0 with sign Aries, nakshatra Ashwini and pada 1;
  every degree in [0,30) has sign Aries while 30 has sign Taurus; and 360/27 has nakshatra
  Bharani with pada 1.
\<close>

theorem decode_boundaries:
  "format_result (Fin 0) =
     Inr (''0'' @ degree_sign @ ''0'' @ prime_sign @ ''0'' @ double_prime_sign, ''Aries'', ''Ashwini'', 1)
   \<and> (\<forall>x. 0 \<le> x \<and> x < 30 \<longrightarrow> (\<exists>t n p. format_result (Fin x) = Inr (t, ''Aries'', n, p)))
   \<and> format_result (Fin 30) =
     Inr (''0'' @ degree_sign @ ''0'' @ prime_sign @ ''0'' @ double_prime_sign, ''Taurus'', ''Krittika'', 1)
   \<and> format_result (Fin (int_truediv 360 27)) =
     Inr (''13'' @ degree_sign @ ''20'' @ prime_sign @ ''0'' @ double_prime_sign, ''Aries'', ''Bharani'', 1)"
  using format_result_at_0 format_result_at_30 format_result_at_nak_span format_result_aries
  by (simp only:) simp

theorem decode_boundaries_witness:
  "(0::rat) \<le> 8444249301319679 / 281474976710656 \<and> (8444249301319679 / 281474976710656 :: rat) < 30
   \<and> (\<exists>t n p. format_result (Fin (8444249301319679 / 281474976710656)) = Inr (t, ''Aries'', n, p))"
proof -
  have h: "(0::rat) \<le> 8444249301319679 / 281474976710656
      \<and> (8444249301319679 / 281474976710656 :: rat) < 30" by simp
  show ?thesis using h decode_boundaries by blast
qed

text \<open>
  C1. The claim is that \<open>deg_to_zodiac\<close> finds an index within its tables for every
  degree. At the degree \<open>-2^-70\<close> it does not: the remainder \<open>-2^-70\<close> plus 360 rounds to
  the double 360, so \<open>normalize_deg\<close> returns 360 itself, the zodiac index is 12, and the
  lookup in the list of twelve signs raises IndexError.
\<close>

theorem deg_to_zodiac_tiny_negative:
  "normalize_deg (Fin (- 1 / 2 ^ 70)) = Fin 360
   \<and> zodiac_index (Fin 360) = Inr 12
   \<and> deg_to_zodiac (Fin (- 1 / 2 ^ 70)) = Inl IndexError"
proof -
  have "\<lfloor>360 / 30 :: rat\<rfloor> = 12" by simp
  then have z: "zodiac_index (Fin 360) = Inr 12" using zodiac_index_eq [of 360] by simp
  have "deg_to_zodiac (Fin (- 1 / 2 ^ 70)) = Inl IndexError"
    unfolding deg_to_zodiac_def normalize_deg_tiny_negative Let_def z
    by (simp add: py_getitem_def ZODIAC_SIGNS_def)
  with z normalize_deg_tiny_negative show ?thesis by simp
qed

end
